theory Spec2Isabelle
  imports Main "HOL-Library.Sublist" "HOL-Library.AList"
begin

section \<open>JavaScript strings\<close>

text \<open>
  Strings are Isabelle strings, read as sequences of Latin-1 code units. The
  helpers below are the built-ins the server calls: \<open>String.prototype.trim\<close>,
  \<open>replace(/\s+/g, " ")\<close>, \<open>toLowerCase\<close>, \<open>toUpperCase\<close> and \<open>includes\<close>.
  White space is the part of the ECMAScript \<open>\s\<close> class that lies in Latin-1:
  TAB, LF, VT, FF, CR, SPACE and NBSP.
\<close>

definition js_space :: "char \<Rightarrow> bool" where
  "js_space c = ((of_char c :: nat) \<in> {9, 10, 11, 12, 13, 32, 160})"

definition js_trim :: "string \<Rightarrow> string" where
  "js_trim s = rev (dropWhile js_space (rev (dropWhile js_space s)))"

text \<open>\<open>s.replace(/\s+/g, " ")\<close>: every maximal run of white space becomes one
  space. The flag says whether the previous character was white space.\<close>

fun collapse_from :: "bool \<Rightarrow> string \<Rightarrow> string" where
  "collapse_from prev [] = []"
| "collapse_from prev (c # cs) =
     (if js_space c
      then (if prev then collapse_from True cs else CHR '' '' # collapse_from True cs)
      else c # collapse_from False cs)"

definition collapse_spaces :: "string \<Rightarrow> string" where
  "collapse_spaces s = collapse_from False s"

text \<open>\<open>toLowerCase\<close> is exact on Latin-1: A-Z and the letters U+00C0..U+00DE
  (without the multiplication sign U+00D7) move up by 32.\<close>

definition lower_char :: "char \<Rightarrow> char" where
  "lower_char c =
     (let n = (of_char c :: nat) in
      if (65 \<le> n \<and> n \<le> 90) \<or> (192 \<le> n \<and> n \<le> 222 \<and> n \<noteq> 215)
      then char_of (n + 32) else c)"

definition toLowerCase :: "string \<Rightarrow> string" where
  "toLowerCase s = map lower_char s"

text \<open>\<open>toUpperCase\<close>: a-z and U+00E0..U+00FE (without the division sign
  U+00F7) move down by 32 and U+00DF becomes \<open>SS\<close>. The images of U+00B5 and
  U+00FF lie outside Latin-1; the two characters are kept as they are, which
  cannot matter below, where upper-cased strings are only compared with the
  ASCII keys of the rank tables.\<close>

definition upper_char :: "char \<Rightarrow> string" where
  "upper_char c =
     (let n = (of_char c :: nat) in
      if n = 223 then ''SS''
      else if (97 \<le> n \<and> n \<le> 122) \<or> (224 \<le> n \<and> n \<le> 254 \<and> n \<noteq> 247)
      then [char_of (n - 32)] else [c])"

definition toUpperCase :: "string \<Rightarrow> string" where
  "toUpperCase s = concat (map upper_char s)"

text \<open>\<open>hay.includes(needle)\<close>.\<close>

definition js_includes :: "string \<Rightarrow> string \<Rightarrow> bool" where
  "js_includes hay needle = sublist needle hay"

text \<open>\<open>String(x || "")\<close> for a string field that may be absent.\<close>

definition str_or_empty :: "string option \<Rightarrow> string" where
  "str_or_empty x = (case x of None \<Rightarrow> [] | Some s \<Rightarrow> s)"

text \<open>Truthiness of an optional string: absent and the empty string are falsy.\<close>

definition truthy_str :: "string option \<Rightarrow> bool" where
  "truthy_str x = (case x of None \<Rightarrow> False | Some s \<Rightarrow> s \<noteq> [])"

section \<open>Rank snapshots and the promotion comparison\<close>

text \<open>
  A rank snapshot is what \<open>fetchSoloQRank\<close> returns: \<open>{unranked: true}\<close> or
  \<open>{tier, division, lp, wins, losses, winrate}\<close>. An absent field is \<open>None\<close>.
  The \<open>winrate\<close> field is a rounded floating-point quotient that nothing in
  the server reads; it is left out.
\<close>

record rank_snapshot =
  unranked :: bool
  tier :: "string option"
  division :: "string option"
  lp :: "int option"
  wins :: "int option"
  losses :: "int option"

text \<open>The two lookup tables of \<open>rankValue\<close>.\<close>

definition tierOrder :: "(string \<times> nat) list" where
  "tierOrder =
     [(''IRON'', 1), (''BRONZE'', 2), (''SILVER'', 3), (''GOLD'', 4), (''PLATINUM'', 5),
      (''EMERALD'', 6), (''DIAMOND'', 7), (''MASTER'', 8), (''GRANDMASTER'', 9),
      (''CHALLENGER'', 10)]"

definition divOrder :: "(string \<times> nat) list" where
  "divOrder = [(''IV'', 1), (''III'', 2), (''II'', 3), (''I'', 4)]"

text \<open>\<open>table[key] ?? 0\<close>. An upper-cased key holds no lower-case letter, so it
  never names a property inherited from \<open>Object.prototype\<close>.\<close>

definition lookup0 :: "(string \<times> nat) list \<Rightarrow> string \<Rightarrow> nat" where
  "lookup0 table key = (case map_of table key of None \<Rightarrow> 0 | Some n \<Rightarrow> n)"

text \<open>\<open>rankValue(oldRank, newRank)\<close> of the server: true when the new snapshot
  is a promotion over the old one.\<close>

definition rankValue :: "rank_snapshot option \<Rightarrow> rank_snapshot option \<Rightarrow> bool" where
  "rankValue oldRank newRank =
     (case oldRank of
        None \<Rightarrow> False
      | Some old \<Rightarrow>
          if unranked old then False
          else (case newRank of
             None \<Rightarrow> False
           | Some new \<Rightarrow>
               if unranked new then False
               else
                 let oldTier = lookup0 tierOrder (toUpperCase (str_or_empty (tier old)));
                     newTier = lookup0 tierOrder (toUpperCase (str_or_empty (tier new)))
                 in if newTier \<noteq> oldTier then newTier > oldTier
                    else
                      let apex = (newTier \<ge> lookup0 tierOrder ''MASTER'');
                          oldDiv = (if apex then 0
                                    else lookup0 divOrder (toUpperCase (str_or_empty (division old))));
                          newDiv = (if apex then 0
                                    else lookup0 divOrder (toUpperCase (str_or_empty (division new))))
                      in if newDiv \<noteq> oldDiv then newDiv > oldDiv else False))"

definition isPromotion :: "rank_snapshot option \<Rightarrow> rank_snapshot option \<Rightarrow> bool" where
  "isPromotion prevRank newRank = rankValue prevRank newRank"

text \<open>The ladder and the divisions in the order the specification gives them,
  lowest first, and the position of a snapshot on them.\<close>

definition tier_ladder :: "string list" where
  "tier_ladder = [''IRON'', ''BRONZE'', ''SILVER'', ''GOLD'', ''PLATINUM'', ''EMERALD'',
                  ''DIAMOND'', ''MASTER'', ''GRANDMASTER'', ''CHALLENGER'']"

definition division_ladder :: "string list" where
  "division_ladder = [''IV'', ''III'', ''II'', ''I'']"

definition apex_tiers :: "string list" where
  "apex_tiers = [''MASTER'', ''GRANDMASTER'', ''CHALLENGER'']"

definition ranked :: "string \<Rightarrow> string \<Rightarrow> int \<Rightarrow> rank_snapshot" where
  "ranked t d points =
     \<lparr>unranked = False, tier = Some t, division = Some d, lp = Some points,
      wins = None, losses = None\<rparr>"

text \<open>The same two orders read off the ladders: the position of a string
  on a ladder counts from 1, and a string that is not on it has position 0.\<close>

fun pos_in :: "string list \<Rightarrow> string \<Rightarrow> nat" where
  "pos_in [] x = 0"
| "pos_in (y # ys) x =
     (if x = y then 1 else (case pos_in ys x of 0 \<Rightarrow> 0 | Suc n \<Rightarrow> Suc (Suc n)))"

definition tier_pos :: "rank_snapshot \<Rightarrow> nat" where
  "tier_pos r = pos_in tier_ladder (toUpperCase (str_or_empty (tier r)))"

definition division_pos :: "rank_snapshot \<Rightarrow> nat" where
  "division_pos r =
     (if toUpperCase (str_or_empty (tier r)) \<in> set apex_tiers then 0
      else pos_in division_ladder (toUpperCase (str_or_empty (division r))))"

section \<open>Remote records, persisted state and process state\<close>

text \<open>
  Timestamps are clock readings kept as numbers; their rendering by
  \<open>toISOString\<close> is not modelled. Numbers that the provider sends as integers
  (durations, champion ids, counters) are unbounded integers; a field that is
  absent, \<open>null\<close> or not a finite number is \<open>None\<close>.
\<close>

type_synonym time = nat

datatype exn = Error string | ReferenceError string | TypeError string

text \<open>\<open>String(x?.message || x)\<close> for a caught exception.\<close>

fun exn_text :: "exn \<Rightarrow> string" where
  "exn_text (Error m) = (if m \<noteq> [] then m else ''Error'')"
| "exn_text (ReferenceError m) = (if m \<noteq> [] then m else ''ReferenceError'')"
| "exn_text (TypeError m) = (if m \<noteq> [] then m else ''TypeError'')"

record participant =
  part_puuid :: "string option"
  championId :: "int option"
  win :: bool
  kills :: "int option"
  deaths :: "int option"
  assists :: "int option"

record match_info =
  gameDuration :: "int option"
  participants :: "participant list"
  gameEndTimestamp :: "time option"
  info_queueId :: "int option"

text \<open>A match record \<open>m\<close>; \<open>None\<close> when \<open>m?.info\<close> is absent.\<close>

type_synonym match_detail = "match_info option"

record league_entry =
  queueType :: "string option"
  le_tier :: "string option"
  le_rank :: "string option"
  leaguePoints :: "int option"
  le_wins :: "int option"
  le_losses :: "int option"

record catalog_entry =
  cat_key :: string
  cat_name :: string
  cat_icon :: string

record ids_query =
  q_startTime :: "int option"
  q_endTime :: "int option"
  q_start :: nat
  q_count :: nat
  q_queue :: "int option"

record champ_row =
  row_championId :: int
  row_count :: int
  row_name :: string
  row_icon :: "string option"

text \<open>
  The year aggregate. \<open>countsByChampionId\<close> is a JavaScript object whose keys
  are the decimal renderings of champion ids; it is kept as an association list
  in insertion order, keyed by the id itself.
\<close>

record year_stats =
  year :: int
  queueId :: "int option"
  totalGames :: int
  byChampion :: "champ_row list"
  countsByChampionId :: "(int \<times> int) list option"
  latestMatchId :: "string option"
  computedAt :: "time option"
  matchCount :: "int option"
  lastIncrement :: "(nat \<times> nat) option"

record game_summary =
  gs_matchId :: string
  gs_time :: time
  gs_win :: bool
  gs_championId :: "int option"
  gs_championName :: string
  gs_championIcon :: "string option"
  gs_k :: int
  gs_d :: int
  gs_a :: int
  gs_durationSec :: int
  gs_queueId :: int

record last_games =
  l5_computedAt :: time
  games :: "game_summary list"

record pending_ban =
  detectedAt :: time
  pb_from :: rank_snapshot
  pb_to :: rank_snapshot

record ban_record =
  ban_time :: time
  ban_champion :: string
  ban_note :: string

record history_entry =
  he_time :: time
  he_playerId :: string
  he_playerName :: string
  he_champion :: string
  he_note :: string
  promotion :: "pending_ban option"

record player =
  player_id :: string
  displayName :: string
  gameName :: string
  tagLine :: string
  platform :: "string option"
  puuid :: "string option"
  currentRank :: "rank_snapshot option"
  lastRank :: "rank_snapshot option"
  soloWL :: "(int \<times> int) option"
  champGamesByYear :: "(int \<times> year_stats) list"
  last5 :: "last_games option"
  lastUpdatedAt :: "time option"
  pendingBan :: "pending_ban option"
  bans :: "ban_record list"
  needsCatchup :: bool
  lastError :: "string option"

record app_state =
  players :: "player list"
  banHistory :: "history_entry list"
  globalLastUpdatedAt :: "time option"

text \<open>
  The process state: the two module-level variables \<open>MATCH_DETAIL_BUDGET\<close> and
  \<open>matchDetailCache\<close>, the document on disk that \<open>loadState\<close> reads and
  \<open>saveState\<close> replaces, and the number of clock readings taken so far.
  Reading and writing the document are taken to succeed, and the document to
  hold every field of the records above.
\<close>

record env =
  MATCH_DETAIL_BUDGET :: int
  matchDetailCache :: "string \<rightharpoonup> match_detail"
  disk :: app_state
  clock_reads :: nat

text \<open>
  The outside world during one call: the clock and the answer of \<open>riotFetch\<close>
  to each kind of request, an exception or the decoded JSON. The retries inside
  \<open>riotFetch\<close> are part of the answer. A listing that is not an array is
  \<open>None\<close>. \<open>ddragon\<close> is the answer of \<open>getChampionsFromDdragon\<close>.
\<close>

record world =
  clock :: "nat \<Rightarrow> time"
  riot_account :: "string \<Rightarrow> string \<Rightarrow> exn + string option"
  riot_league :: "string \<Rightarrow> string \<Rightarrow> exn + league_entry list option"
  riot_match_ids :: "string \<Rightarrow> string \<Rightarrow> ids_query \<Rightarrow> exn + string list option"
  riot_match :: "string \<Rightarrow> string \<Rightarrow> exn + match_detail"
  ddragon :: "exn + catalog_entry list"

definition REMAKE_MAX_DURATION_SEC :: int where
  "REMAKE_MAX_DURATION_SEC = 300"

definition MATCH_DETAIL_BUDGET_PER_REFRESH :: int where
  "MATCH_DETAIL_BUDGET_PER_REFRESH = 20"

text \<open>\<open>new Date()\<close> and \<open>Date.now()\<close>.\<close>

definition read_clock :: "world \<Rightarrow> env \<Rightarrow> time \<times> env" where
  "read_clock w e = (clock w (clock_reads e), e\<lparr>clock_reads := Suc (clock_reads e)\<rparr>)"

definition saveState :: "app_state \<Rightarrow> env \<Rightarrow> env" where
  "saveState st e = e\<lparr>disk := st\<rparr>"

definition loadState :: "env \<Rightarrow> app_state" where
  "loadState e = disk e"

text \<open>The player at position \<open>i\<close> of the roster is mutated in place.\<close>

definition set_player :: "app_state \<Rightarrow> nat \<Rightarrow> player \<Rightarrow> app_state" where
  "set_player st i p = st\<lparr>players := (players st)[i := p]\<rparr>"

section \<open>Small helpers of the server\<close>

definition num0 :: "int option \<Rightarrow> int" where
  "num0 x = (case x of None \<Rightarrow> 0 | Some n \<Rightarrow> n)"

text \<open>\<open>String(n)\<close> of an integer: its decimal digits, collected from the last
  one, behind a minus sign when it is negative. (From \<open>10^21\<close> on JavaScript
  switches to exponent notation; champion ids are far below.)\<close>

definition digit_char :: "nat \<Rightarrow> char" where
  "digit_char d = char_of (of_char CHR ''0'' + d)"

fun decimal_onto :: "nat \<Rightarrow> string \<Rightarrow> string" where
  "decimal_onto n acc =
     (if n < 10 then digit_char n # acc
      else decimal_onto (n div 10) (digit_char (n mod 10) # acc))"

definition js_String_int :: "int \<Rightarrow> string" where
  "js_String_int i =
     (if i < 0 then CHR ''-'' # decimal_onto (nat (- i)) [] else decimal_onto (nat i) [])"

text \<open>\<open>String(x)\<close> of a number that may be \<open>undefined\<close>, and of a string that may be.\<close>

definition js_String_num :: "int option \<Rightarrow> string" where
  "js_String_num x = (case x of None \<Rightarrow> ''undefined'' | Some i \<Rightarrow> js_String_int i)"

definition js_String_str :: "string option \<Rightarrow> string" where
  "js_String_str x = (case x of None \<Rightarrow> ''undefined'' | Some s \<Rightarrow> s)"

definition regionalForPlatform :: "string option \<Rightarrow> string" where
  "regionalForPlatform pf =
     (let p = toLowerCase (str_or_empty pf) in
      if p \<in> set [''euw1'', ''eun1'', ''tr1'', ''ru''] then ''europe''
      else if p \<in> set [''na1'', ''br1'', ''la1'', ''la2'', ''oc1''] then ''americas''
      else ''asia'')"

text \<open>\<open>Date.UTC(y, 0, 1) / 1000\<close>: the days from 1970 to the first of January
  of the year, in seconds; \<open>Date.UTC\<close> reads a year from 0 to 99 as 1900 + year.\<close>

definition leaps_before :: "int \<Rightarrow> int" where
  "leaps_before y = (y - 1) div 4 - (y - 1) div 100 + (y - 1) div 400"

definition date_utc_jan1 :: "int \<Rightarrow> int" where
  "date_utc_jan1 y =
     (let y' = (if 0 \<le> y \<and> y \<le> 99 then 1900 + y else y)
      in (365 * (y' - 1970) + leaps_before y' - leaps_before 1970) * 86400)"

definition yearRangeEpochSeconds :: "int \<Rightarrow> int \<times> int" where
  "yearRangeEpochSeconds y = (date_utc_jan1 y, date_utc_jan1 (y + 1))"

text \<open>The remake test of both loops:
  \<open>Number.isFinite(dur) && dur > 0 && dur < REMAKE_MAX_DURATION_SEC\<close>.\<close>

definition is_remake :: "match_detail \<Rightarrow> bool" where
  "is_remake m =
     (case m of
        None \<Rightarrow> False
      | Some mi \<Rightarrow>
          (case gameDuration mi of
             None \<Rightarrow> False
           | Some dur \<Rightarrow> dur > 0 \<and> dur < REMAKE_MAX_DURATION_SEC))"

text \<open>\<open>(m?.info?.participants || []).find((x) => x?.puuid === player.puuid)\<close>.\<close>

definition find_me :: "match_detail \<Rightarrow> string option \<Rightarrow> participant option" where
  "find_me m pu =
     (case m of
        None \<Rightarrow> None
      | Some mi \<Rightarrow> find (\<lambda>x. part_puuid x = pu) (participants mi))"

text \<open>The catalog as \<open>new Map(dd.champions.map((c) => [String(c.key), c]))\<close>: of
  two entries with one key the later one stays.\<close>

definition byKey_get :: "catalog_entry list \<Rightarrow> string \<Rightarrow> catalog_entry option" where
  "byKey_get champions k = map_of (rev (map (\<lambda>c. (cat_key c, c)) champions)) k"

definition champ_name :: "catalog_entry list \<Rightarrow> string \<Rightarrow> string" where
  "champ_name champions k =
     (case byKey_get champions k of
        None \<Rightarrow> ''Champion '' @ k
      | Some c \<Rightarrow> if cat_name c \<noteq> [] then cat_name c else ''Champion '' @ k)"

definition champ_icon :: "catalog_entry list \<Rightarrow> string \<Rightarrow> string option" where
  "champ_icon champions k =
     (case byKey_get champions k of
        None \<Rightarrow> None
      | Some c \<Rightarrow> if cat_icon c \<noteq> [] then Some (cat_icon c) else None)"

section \<open>Remote lookups\<close>

text \<open>\<open>ensurePuuidAndSummonerId\<close>: one account lookup while the record has no puuid.\<close>

definition ensurePuuidAndSummonerId :: "world \<Rightarrow> player \<Rightarrow> exn + player" where
  "ensurePuuidAndSummonerId w p =
     (if \<not> truthy_str (puuid p)
      then (case riot_account w (gameName p) (tagLine p) of
              Inl x \<Rightarrow> Inl x
            | Inr acc_puuid \<Rightarrow> Inr (p\<lparr>puuid := acc_puuid\<rparr>))
      else Inr p)"

definition unranked_snapshot :: rank_snapshot where
  "unranked_snapshot =
     \<lparr>unranked = True, tier = None, division = None, lp = None, wins = None, losses = None\<rparr>"

definition fetchSoloQRank :: "world \<Rightarrow> player \<Rightarrow> exn + rank_snapshot" where
  "fetchSoloQRank w p =
     (let pf = toLowerCase (case platform p of None \<Rightarrow> ''euw1''
                                             | Some s \<Rightarrow> if s \<noteq> [] then s else ''euw1'')
      in case riot_league w pf (js_String_str (puuid p)) of
           Inl x \<Rightarrow> Inl x
         | Inr entries \<Rightarrow>
             (case (case entries of
                      None \<Rightarrow> None
                    | Some es \<Rightarrow> find (\<lambda>en. queueType en = Some ''RANKED_SOLO_5x5'') es) of
                None \<Rightarrow> Inr unranked_snapshot
              | Some solo \<Rightarrow>
                  Inr \<lparr>unranked = False, tier = le_tier solo, division = le_rank solo,
                       lp = leaguePoints solo, wins = Some (num0 (le_wins solo)),
                       losses = Some (num0 (le_losses solo))\<rparr>))"

section \<open>Match detail cache and fetch budget\<close>

definition fetchMatchDetail ::
  "world \<Rightarrow> env \<Rightarrow> string \<Rightarrow> string \<Rightarrow> (exn + match_detail) \<times> env" where
  "fetchMatchDetail w e region matchId =
     (let key = region @ '':'' @ matchId in
      case matchDetailCache e key of
        Some m \<Rightarrow> (Inr m, e)
      | None \<Rightarrow>
          if MATCH_DETAIL_BUDGET e \<le> 0
          then (Inl (Error ''MATCH_DETAIL_BUDGET_EXCEEDED''), e)
          else
            let e1 = e\<lparr>MATCH_DETAIL_BUDGET := MATCH_DETAIL_BUDGET e - 1\<rparr> in
            (case riot_match w region matchId of
               Inl x \<Rightarrow> (Inl x, e1)
             | Inr m \<Rightarrow> (Inr m, e1\<lparr>matchDetailCache := (matchDetailCache e1)(key \<mapsto> m)\<rparr>)))"

section \<open>The incremental aggregator\<close>

text \<open>
  The counts object: \<open>obj[k] = v\<close> replaces the value of an existing key in
  its place and appends a new key; \<open>Object.entries\<close> lists the keys that are
  array indices in ascending order and then the others in insertion order.
\<close>

definition is_array_index :: "int \<Rightarrow> bool" where
  "is_array_index k = (0 \<le> k \<and> k < 4294967295)"

definition object_entries :: "(int \<times> int) list \<Rightarrow> (int \<times> int) list" where
  "object_entries obj =
     sort_key fst (filter (\<lambda>kv. is_array_index (fst kv)) obj)
     @ filter (\<lambda>kv. \<not> is_array_index (fst kv)) obj"

definition ensureCountsMap :: "year_stats \<Rightarrow> year_stats" where
  "ensureCountsMap stats =
     (case countsByChampionId stats of
        Some obj \<Rightarrow> stats
      | None \<Rightarrow>
          stats\<lparr>countsByChampionId :=
                  Some (foldl (\<lambda>obj row. AList.update (row_championId row) (row_count row) obj)
                          [] (byChampion stats))\<rparr>)"

text \<open>The three assignments at the end of the loop body, for champion \<open>c\<close>.
  The counts object is there after \<open>ensureCountsMap\<close>; without it the property
  access would throw.\<close>

definition count_game :: "year_stats \<Rightarrow> int \<Rightarrow> exn + year_stats" where
  "count_game stats c =
     (case countsByChampionId stats of
        None \<Rightarrow> Inl (TypeError ''Cannot read properties of undefined'')
      | Some obj \<Rightarrow>
          Inr (stats\<lparr>countsByChampionId :=
                       Some (AList.update c (num0 (map_of obj c) + 1) obj),
                     totalGames := totalGames stats + 1\<rparr>))"

text \<open>The loop \<open>for (const matchId of newIds)\<close>. It returns \<open>added\<close>, or the
  exception that left the loop, with the process state and the aggregate as
  they are at that moment.\<close>

fun count_new_matches ::
  "world \<Rightarrow> string \<Rightarrow> string option \<Rightarrow> string list \<Rightarrow> env \<Rightarrow> year_stats \<Rightarrow> nat
     \<Rightarrow> (exn + nat) \<times> env \<times> year_stats" where
  "count_new_matches w region pu [] e stats added = (Inr added, e, stats)"
| "count_new_matches w region pu (matchId # rest) e stats added =
     (case fetchMatchDetail w e region matchId of
        (Inl x, e1) \<Rightarrow> (Inl x, e1, stats)
      | (Inr m, e1) \<Rightarrow>
          if is_remake m then count_new_matches w region pu rest e1 stats added
          else
            (case (case find_me m pu of None \<Rightarrow> None | Some me \<Rightarrow> championId me) of
               None \<Rightarrow> count_new_matches w region pu rest e1 stats added
             | Some c \<Rightarrow>
                 (case count_game stats c of
                    Inl x \<Rightarrow> (Inl x, e1, stats)
                  | Inr stats1 \<Rightarrow>
                      count_new_matches w region pu rest e1 stats1 (Suc added))))"

text \<open>\<open>byChampion\<close> rebuilt from the counts: one row per entry, then a stable
  sort by descending count.\<close>

definition rebuild_byChampion :: "catalog_entry list \<Rightarrow> (int \<times> int) list \<Rightarrow> champ_row list" where
  "rebuild_byChampion champions obj =
     sort_key (\<lambda>r. - row_count r)
       (map (\<lambda>kv. \<lparr>row_championId = fst kv, row_count = snd kv,
                    row_name = champ_name champions (js_String_int (fst kv)),
                    row_icon = champ_icon champions (js_String_int (fst kv))\<rparr>)
            (object_entries obj))"

definition get_stats :: "player \<Rightarrow> int \<Rightarrow> year_stats option" where
  "get_stats p yr = map_of (champGamesByYear p) yr"

definition put_stats :: "player \<Rightarrow> int \<Rightarrow> year_stats \<Rightarrow> player" where
  "put_stats p yr stats = p\<lparr>champGamesByYear := AList.update yr stats (champGamesByYear p)\<rparr>"

definition year_query :: "int \<Rightarrow> int option \<Rightarrow> ids_query" where
  "year_query yr q =
     (case yearRangeEpochSeconds yr of
        (start, end) \<Rightarrow>
          \<lparr>q_startTime = Some start, q_endTime = Some end, q_start = 0, q_count = 100,
           q_queue = q\<rparr>)"

text \<open>The ids in front of the marker:
  \<open>for (const id of ids) { if (id === stats.latestMatchId) break; newIds.push(id); }\<close>.\<close>

definition new_ids :: "string list \<Rightarrow> string option \<Rightarrow> string list" where
  "new_ids ids marker = takeWhile (\<lambda>i. Some i \<noteq> marker) ids"

text \<open>The aggregate the call works on: the stored one, or a new one
  \<open>{ year, queueId, totalGames: 0, byChampion: [] }\<close>; then
  \<open>stats.queueId = queueId\<close> and \<open>ensureCountsMap(stats)\<close>.\<close>

definition open_stats :: "player \<Rightarrow> int \<Rightarrow> int option \<Rightarrow> year_stats" where
  "open_stats p yr q =
     ensureCountsMap
       ((case get_stats p yr of
           Some s \<Rightarrow> s
         | None \<Rightarrow> \<lparr>year = yr, queueId = q, totalGames = 0, byChampion = [],
                     countsByChampionId = None, latestMatchId = None,
                     computedAt = None, matchCount = None, lastIncrement = None\<rparr>)
        \<lparr>queueId := q\<rparr>)"

text \<open>
  \<open>updateChampionOverviewIncremental(state, player, year, queueId)\<close>, as it acts
  on the player record. \<open>state\<close> is only passed on to \<open>saveState\<close>, which is the
  last statement on every path that reaches it; the result \<open>Inr True\<close> says
  that the path ended with \<open>saveState(state)\<close>, \<open>Inr False\<close> that it returned
  without. The aggregate is an object shared with the player record, so every
  exit hands back the player with the aggregate as mutated so far.
\<close>

definition incremental_update ::
  "world \<Rightarrow> env \<Rightarrow> player \<Rightarrow> int \<Rightarrow> int option \<Rightarrow> (exn + bool) \<times> env \<times> player" where
  "incremental_update w e p0 yr q =
     (case ensurePuuidAndSummonerId w p0 of
        Inl x \<Rightarrow> (Inl x, e, p0)
      | Inr p \<Rightarrow>
          let stats1 = open_stats p yr q;
              region = regionalForPlatform (platform p)
          in (case riot_match_ids w region (js_String_str (puuid p)) (year_query yr q) of
                Inl x \<Rightarrow> (Inl x, e, put_stats p yr stats1)
              | Inr listing \<Rightarrow>
                  (case listing of
                     None \<Rightarrow> (Inr False, e, put_stats p yr stats1)
                   | Some [] \<Rightarrow> (Inr False, e, put_stats p yr stats1)
                   | Some (newest # older) \<Rightarrow>
                       if \<not> truthy_str (latestMatchId stats1)
                       then (case read_clock w e of
                               (now, e1) \<Rightarrow>
                                 (Inr True, e1,
                                  put_stats p yr
                                    (stats1\<lparr>latestMatchId := Some newest,
                                            computedAt := Some now\<rparr>)))
                       else
                         let newIds = new_ids (newest # older) (latestMatchId stats1);
                             stats2 = stats1\<lparr>latestMatchId := Some newest\<rparr>
                         in if newIds = []
                            then (case read_clock w e of
                                    (now, e1) \<Rightarrow>
                                      (Inr True, e1,
                                       put_stats p yr (stats2\<lparr>computedAt := Some now\<rparr>)))
                            else
                              (case ddragon w of
                                 Inl x \<Rightarrow> (Inl x, e, put_stats p yr stats2)
                               | Inr champions \<Rightarrow>
                                   (case count_new_matches w region (puuid p) newIds e stats2 0 of
                                      (Inl x, e1, stats3) \<Rightarrow> (Inl x, e1, put_stats p yr stats3)
                                    | (Inr added, e1, stats3) \<Rightarrow>
                                        (case countsByChampionId stats3 of
                                           None \<Rightarrow>
                                             (Inl (TypeError ''Cannot convert undefined to object''),
                                              e1, put_stats p yr stats3)
                                         | Some obj \<Rightarrow>
                                             (case read_clock w e1 of
                                                (now, e2) \<Rightarrow>
                                                  (Inr True, e2,
                                                   put_stats p yr
                                                     (stats3\<lparr>byChampion :=
                                                                rebuild_byChampion champions obj,
                                                              matchCount :=
                                                                Some (num0 (matchCount stats3)
                                                                        + int (length newIds)),
                                                              computedAt := Some now,
                                                              lastIncrement :=
                                                                Some (length newIds, added)\<rparr>)))))))))"

text \<open>The same call on the state: the player is the roster entry at position
  \<open>i\<close>, and a path that ends in \<open>saveState(state)\<close> writes the whole state.\<close>

definition updateChampionOverviewIncremental ::
  "world \<Rightarrow> env \<Rightarrow> app_state \<Rightarrow> nat \<Rightarrow> int \<Rightarrow> int option
     \<Rightarrow> (exn + unit) \<times> env \<times> app_state" where
  "updateChampionOverviewIncremental w e st i yr q =
     (case incremental_update w e (players st ! i) yr q of
        (r, e1, p1) \<Rightarrow>
          let st1 = set_player st i p1 in
          (case r of
             Inl x \<Rightarrow> (Inl x, e1, st1)
           | Inr saved \<Rightarrow> (Inr (), if saved then saveState st1 e1 else e1, st1)))"

section \<open>The most recent games\<close>

definition summary_query :: "nat \<Rightarrow> int option \<Rightarrow> ids_query" where
  "summary_query n q =
     \<lparr>q_startTime = None, q_endTime = None, q_start = 0, q_count = min (n * 2) 20,
      q_queue = q\<rparr>"

text \<open>\<open>m?.info?.gameEndTimestamp || Date.now()\<close>: the clock is read only when the
  record has no end time.\<close>

definition end_time :: "world \<Rightarrow> env \<Rightarrow> match_detail \<Rightarrow> time \<times> env" where
  "end_time w e m =
     (case (case m of None \<Rightarrow> None | Some mi \<Rightarrow> gameEndTimestamp mi) of
        None \<Rightarrow> read_clock w e
      | Some t \<Rightarrow> if t \<noteq> 0 then (t, e) else read_clock w e)"

definition summary_of ::
  "catalog_entry list \<Rightarrow> string \<Rightarrow> time \<Rightarrow> match_detail \<Rightarrow> participant \<Rightarrow> game_summary" where
  "summary_of champions matchId t m me =
     \<lparr>gs_matchId = matchId, gs_time = t, gs_win = win me,
      gs_championId = championId me,
      gs_championName = champ_name champions (js_String_num (championId me)),
      gs_championIcon = champ_icon champions (js_String_num (championId me)),
      gs_k = num0 (kills me), gs_d = num0 (deaths me), gs_a = num0 (assists me),
      gs_durationSec = num0 (case m of None \<Rightarrow> None | Some mi \<Rightarrow> gameDuration mi),
      gs_queueId = num0 (case m of None \<Rightarrow> None | Some mi \<Rightarrow> info_queueId mi)\<rparr>"

text \<open>The loop of \<open>fetchLastNGamesSummary\<close>. The entry is built twice, once for
  \<open>console.log\<close> and once for \<open>out.push\<close>; only the clock can tell.\<close>

fun last_games_loop ::
  "world \<Rightarrow> string \<Rightarrow> string option \<Rightarrow> nat \<Rightarrow> catalog_entry list \<Rightarrow> string list \<Rightarrow> env
     \<Rightarrow> game_summary list \<Rightarrow> (exn + game_summary list) \<times> env" where
  "last_games_loop w region pu n champions [] e out = (Inr out, e)"
| "last_games_loop w region pu n champions (matchId # rest) e out =
     (if length out \<ge> n then (Inr out, e)
      else
        (case fetchMatchDetail w e region matchId of
           (Inl x, e1) \<Rightarrow> (Inl x, e1)
         | (Inr m, e1) \<Rightarrow>
             if is_remake m then last_games_loop w region pu n champions rest e1 out
             else
               (case find_me m pu of
                  None \<Rightarrow> last_games_loop w region pu n champions rest e1 out
                | Some me \<Rightarrow>
                    (case end_time w e1 m of
                       (t_logged, e2) \<Rightarrow>
                         (case end_time w e2 m of
                            (t, e3) \<Rightarrow>
                              last_games_loop w region pu n champions rest e3
                                (out @ [summary_of champions matchId t m me]))))))"

definition fetchLastNGamesSummary ::
  "world \<Rightarrow> env \<Rightarrow> player \<Rightarrow> nat \<Rightarrow> int option \<Rightarrow> (exn + game_summary list) \<times> env" where
  "fetchLastNGamesSummary w e p n q =
     (let region = regionalForPlatform (platform p) in
      case riot_match_ids w region (js_String_str (puuid p)) (summary_query n q) of
        Inl x \<Rightarrow> (Inl x, e)
      | Inr listing \<Rightarrow>
          (case listing of
             None \<Rightarrow> (Inr [], e)
           | Some [] \<Rightarrow> (Inr [], e)
           | Some (newest # older) \<Rightarrow>
               (case ddragon w of
                  Inl x \<Rightarrow> (Inl x, e)
                | Inr champions \<Rightarrow>
                    last_games_loop w region (puuid p) n champions (newest # older) e [])))"

section \<open>The refresh cycle\<close>

text \<open>The end of the \<open>try\<close> block: the time stamp and the pending promotion,
  which is created only if none exists.\<close>

definition refresh_finish :: "time \<Rightarrow> rank_snapshot \<Rightarrow> rank_snapshot \<Rightarrow> player \<Rightarrow> player" where
  "refresh_finish nowIso prevRank newRank p =
     (let p1 = p\<lparr>lastUpdatedAt := Some nowIso\<rparr> in
      if isPromotion (Some prevRank) (Some newRank)
      then (if pendingBan p1 = None
            then p1\<lparr>pendingBan :=
                      Some \<lparr>detectedAt = nowIso, pb_from = prevRank, pb_to = newRank\<rparr>\<rparr>
            else p1)
      else p1)"

text \<open>The \<open>try\<close> block of the roster loop for the player at position \<open>i\<close>.
  An exception leaves the block with the state as mutated so far.\<close>

definition refresh_try ::
  "world \<Rightarrow> time \<Rightarrow> env \<Rightarrow> app_state \<Rightarrow> nat \<Rightarrow> (exn + unit) \<times> env \<times> app_state" where
  "refresh_try w nowIso e st i =
     (case ensurePuuidAndSummonerId w (players st ! i) of
        Inl x \<Rightarrow> (Inl x, e, st)
      | Inr p1 \<Rightarrow>
          (case fetchSoloQRank w p1 of
             Inl x \<Rightarrow> (Inl x, e, set_player st i p1)
           | Inr newRank \<Rightarrow>
               let prevRank = (case currentRank p1 of
                                 Some r \<Rightarrow> r
                               | None \<Rightarrow> (case lastRank p1 of
                                             Some r \<Rightarrow> r
                                           | None \<Rightarrow> unranked_snapshot));
                   prevTotal = (case soloWL p1 of None \<Rightarrow> 0 | Some (pw, pl) \<Rightarrow> pw + pl);
                   newWL = (num0 (wins newRank), num0 (losses newRank));
                   newTotal = fst newWL + snd newWL;
                   p2 = p1\<lparr>soloWL := Some newWL,
                           lastRank := (case currentRank p1 of
                                          Some r \<Rightarrow> Some r
                                        | None \<Rightarrow> lastRank p1),
                           currentRank := Some newRank\<rparr>;
                   st2 = set_player st i p2
               in if newTotal \<noteq> prevTotal
                  then
                    (case updateChampionOverviewIncremental w e st2 i 2026 (Some 420) of
                       (Inl x, e1, st3) \<Rightarrow> (Inl x, e1, st3)
                     | (Inr u, e1, st3) \<Rightarrow>
                         (case fetchLastNGamesSummary w e1 (players st3 ! i) 5 (Some 420) of
                            (Inl x, e2) \<Rightarrow> (Inl x, e2, st3)
                          | (Inr gms, e2) \<Rightarrow>
                              (Inr (), e2,
                               set_player st3 i
                                 (refresh_finish nowIso prevRank newRank
                                    ((players st3 ! i)
                                       \<lparr>last5 := Some \<lparr>l5_computedAt = nowIso,
                                                        games = gms\<rparr>\<rparr>)))))
                  else
                    (Inr (), e, set_player st2 i (refresh_finish nowIso prevRank newRank p2))))"

text \<open>
  The \<open>catch (err)\<close> clause. Its body reads the identifier \<open>e\<close>:
  \<open>const msg = String(e?.message || e)\<close>. \<open>scope\<close> holds the exception-valued
  identifiers that are bound where the body runs; reading an identifier that is
  not bound throws a \<open>ReferenceError\<close>.
\<close>

definition refresh_catch :: "(string \<times> exn) list \<Rightarrow> player \<Rightarrow> exn + player" where
  "refresh_catch scope p =
     (case map_of scope ''e'' of
        None \<Rightarrow> Inl (ReferenceError ''e is not defined'')
      | Some x \<Rightarrow>
          let msg = exn_text x in
          if js_includes msg ''MATCH_DETAIL_BUDGET_EXCEEDED''
          then Inr (p\<lparr>needsCatchup := True\<rparr>)
          else Inr (p\<lparr>lastError := Some msg\<rparr>))"

text \<open>One iteration of \<open>for (const p of state.players)\<close>: the clause binds the
  caught exception to \<open>err\<close>, and neither the function nor the module declares
  an \<open>e\<close>.\<close>

definition refresh_player ::
  "world \<Rightarrow> time \<Rightarrow> env \<Rightarrow> app_state \<Rightarrow> nat \<Rightarrow> (exn + unit) \<times> env \<times> app_state" where
  "refresh_player w nowIso e st i =
     (case refresh_try w nowIso e st i of
        (Inr u, e1, st1) \<Rightarrow> (Inr (), e1, st1)
      | (Inl err, e1, st1) \<Rightarrow>
          (case refresh_catch [(''err'', err)] (players st1 ! i) of
             Inl thrown \<Rightarrow> (Inl thrown, e1, st1)
           | Inr p \<Rightarrow> (Inr (), e1, set_player st1 i p)))"

fun refresh_loop ::
  "world \<Rightarrow> time \<Rightarrow> nat list \<Rightarrow> env \<Rightarrow> app_state \<Rightarrow> (exn + unit) \<times> env \<times> app_state" where
  "refresh_loop w nowIso [] e st = (Inr (), e, st)"
| "refresh_loop w nowIso (i # rest) e st =
     (case refresh_player w nowIso e st i of
        (Inl x, e1, st1) \<Rightarrow> (Inl x, e1, st1)
      | (Inr u, e1, st1) \<Rightarrow> refresh_loop w nowIso rest e1 st1)"

text \<open>\<open>refreshAll()\<close>: the state it returns, or the exception that rejects it,
  and the process state afterwards.\<close>

definition refreshAll :: "world \<Rightarrow> env \<Rightarrow> (exn + app_state) \<times> env" where
  "refreshAll w e0 =
     (let e1 = e0\<lparr>MATCH_DETAIL_BUDGET := MATCH_DETAIL_BUDGET_PER_REFRESH\<rparr>;
          st0 = loadState e1
      in case read_clock w e1 of
           (nowIso, e2) \<Rightarrow>
             let st1 = st0\<lparr>globalLastUpdatedAt := Some nowIso\<rparr> in
             (case refresh_loop w nowIso [0..<length (players st1)] e2 st1 of
                (Inl x, e3, st2) \<Rightarrow> (Inl x, e3)
              | (Inr u, e3, st2) \<Rightarrow> (Inr st2, saveState st2 e3)))"

section \<open>Recording a ban\<close>

record ban_request =
  req_playerId :: "string option"
  req_champion :: "string option"
  req_note :: "string option"

text \<open>The reply of \<open>POST /api/ban\<close>: the status of a rejection (its error text is
  left out), or the state sent back with \<open>ok: true\<close>.\<close>

datatype ban_reply = Rejected nat | Accepted app_state

definition norm :: "string \<Rightarrow> string" where
  "norm s = toLowerCase (collapse_spaces (js_trim s))"

fun update_first :: "('a \<Rightarrow> bool) \<Rightarrow> ('a \<Rightarrow> 'a) \<Rightarrow> 'a list \<Rightarrow> 'a list" where
  "update_first P f [] = []"
| "update_first P f (x # xs) = (if P x then f x # xs else x # update_first P f xs)"

definition post_api_ban :: "world \<Rightarrow> env \<Rightarrow> ban_request \<Rightarrow> ban_reply \<times> env" where
  "post_api_ban w e req =
     (let champ = js_trim (str_or_empty (req_champion req)) in
      if \<not> truthy_str (req_playerId req) \<or> champ = [] then (Rejected 400, e)
      else
        let state = loadState e in
        (case find (\<lambda>x. Some (player_id x) = req_playerId req) (players state) of
           None \<Rightarrow> (Rejected 404, e)
         | Some p \<Rightarrow>
             (case pendingBan p of
                None \<Rightarrow> (Rejected 409, e)
              | Some pending \<Rightarrow>
                  if list_ex (\<lambda>b. norm (ban_champion b) = norm champ) (bans p)
                  then (Rejected 409, e)
                  else
                    (case read_clock w e of
                       (now, e1) \<Rightarrow>
                         let entry = \<lparr>he_time = now, he_playerId = player_id p,
                                      he_playerName = displayName p, he_champion = champ,
                                      he_note = str_or_empty (req_note req),
                                      promotion =
                                        Some \<lparr>detectedAt = detectedAt pending,
                                              pb_from = pb_from pending,
                                              pb_to = pb_to pending\<rparr>\<rparr>;
                             state1 =
                               state\<lparr>players :=
                                       update_first (\<lambda>x. Some (player_id x) = req_playerId req)
                                         (\<lambda>x. x\<lparr>bans := bans x @ [\<lparr>ban_time = now,
                                                                     ban_champion = champ,
                                                                     ban_note = he_note entry\<rparr>],
                                                 pendingBan := None\<rparr>)
                                         (players state),
                                     banHistory := entry # banHistory state\<rparr>
                         in (Accepted state1, saveState state1 e1)))))"

section \<open>Quantities the properties speak about\<close>

text \<open>The sum of the values of \<open>countsByChampionId\<close> and the sum of the
  \<open>count\<close> fields of \<open>byChampion\<close>.\<close>

definition counts_total :: "(int \<times> int) list \<Rightarrow> int" where
  "counts_total obj = sum_list (map snd obj)"

definition rows_total :: "champ_row list \<Rightarrow> int" where
  "rows_total rows = sum_list (map row_count rows)"

text \<open>The count consistency of an aggregate that has its counts object.\<close>

definition aggregate_ok :: "year_stats \<Rightarrow> bool" where
  "aggregate_ok stats =
     (case countsByChampionId stats of
        None \<Rightarrow> False
      | Some obj \<Rightarrow>
          totalGames stats = counts_total obj
          \<and> counts_total obj = rows_total (byChampion stats))"

text \<open>An aggregate written without a counts object, one row per champion, as
  \<open>computeChampionGamesForYear\<close> writes it.\<close>

definition legacy_ok :: "year_stats \<Rightarrow> bool" where
  "legacy_ok stats =
     (countsByChampionId stats = None \<and> totalGames stats = rows_total (byChampion stats)
      \<and> distinct (map row_championId (byChampion stats)))"

text \<open>The record that \<open>fetchMatchDetail\<close> hands out for a match id in a given
  process state, were it asked now: the cached one, or the provider's.\<close>

definition resolve :: "world \<Rightarrow> env \<Rightarrow> string \<Rightarrow> string \<Rightarrow> exn + match_detail" where
  "resolve w e region matchId =
     (case matchDetailCache e (region @ '':'' @ matchId) of
        Some m \<Rightarrow> Inr m
      | None \<Rightarrow> riot_match w region matchId)"

text \<open>The champion a record counts for: none for a remake, for a record
  without the player, and for a participant without a finite champion id.\<close>

definition counted_champion :: "match_detail \<Rightarrow> string option \<Rightarrow> int option" where
  "counted_champion m pu =
     (if is_remake m then None
      else (case find_me m pu of None \<Rightarrow> None | Some me \<Rightarrow> championId me))"

definition counts_for :: "world \<Rightarrow> env \<Rightarrow> string \<Rightarrow> string option \<Rightarrow> string \<Rightarrow> bool" where
  "counts_for w e region pu matchId =
     (case resolve w e region matchId of
        Inl x \<Rightarrow> False
      | Inr m \<Rightarrow> counted_champion m pu \<noteq> None)"

text \<open>The snapshot a cycle compares the fresh rank with:
  \<open>p.currentRank || p.lastRank\<close>; and a snapshot that is missing or unranked.\<close>

definition stored_rank :: "player \<Rightarrow> rank_snapshot option" where
  "stored_rank p = (case currentRank p of Some r \<Rightarrow> Some r | None \<Rightarrow> lastRank p)"

definition is_unranked :: "rank_snapshot option \<Rightarrow> bool" where
  "is_unranked r = (case r of None \<Rightarrow> True | Some s \<Rightarrow> unranked s)"

text \<open>
  What a walk over \<open>ids\<close> leaves behind. A complete walk has counted exactly
  the ids whose record counts. A walk that an exception left has counted
  exactly those among the ids in front of the one it failed on; that one is
  not in the cache, and either the budget was used up or the provider failed.
\<close>

definition walk_result ::
  "world \<Rightarrow> env \<Rightarrow> string \<Rightarrow> string option \<Rightarrow> string list \<Rightarrow> year_stats \<Rightarrow> nat
     \<Rightarrow> (exn + nat) \<Rightarrow> env \<Rightarrow> year_stats \<Rightarrow> bool" where
  "walk_result w e region pu ids stats added r e' stats' =
     (case r of
        Inr added' \<Rightarrow>
          totalGames stats' = totalGames stats + int (length (filter (counts_for w e region pu) ids))
          \<and> added' = added + length (filter (counts_for w e region pu) ids)
      | Inl x \<Rightarrow>
          (\<exists>seen bad rest.
             ids = seen @ bad # rest
             \<and> totalGames stats' = totalGames stats
                   + int (length (filter (counts_for w e region pu) seen))
             \<and> matchDetailCache e' (region @ '':'' @ bad) = None
             \<and> ((x = Error ''MATCH_DETAIL_BUDGET_EXCEEDED'' \<and> MATCH_DETAIL_BUDGET e' \<le> 0)
                  \<or> riot_match w region bad = Inl x)))"

text \<open>
  The provider's listing endpoint as the server relies on it: of the player's
  matches, newest first, it returns \<open>count\<close> ids from position \<open>start\<close> on.
\<close>

definition paged :: "string list \<Rightarrow> string \<Rightarrow> string \<Rightarrow> ids_query \<Rightarrow> exn + string list option" where
  "paged history region pu qy = Inr (Some (take (q_count qy) (drop (q_start qy) history)))"

text \<open>
  Example data: a player \<open>P\<close> at GOLD IV with ten wins and ten losses, whose
  aggregate has seen three games on champion 7 and has its marker on \<open>m0\<close>; a
  provider that lists the given ids, newest first, reports GOLD III with eleven
  wins, and answers every match lookup with a game of the given duration in
  which \<open>P\<close> plays champion 7.
\<close>

definition demo_stats :: year_stats where
  "demo_stats =
     \<lparr>year = 2026, queueId = Some 420, totalGames = 3,
      byChampion = [\<lparr>row_championId = 7, row_count = 3, row_name = ''Seven'',
                      row_icon = Some ''7.png''\<rparr>],
      countsByChampionId = Some [(7, 3)], latestMatchId = Some ''m0'',
      computedAt = Some 1, matchCount = Some 3, lastIncrement = None\<rparr>"

definition demo_player :: "string \<Rightarrow> player" where
  "demo_player name =
     \<lparr>player_id = name, displayName = name, gameName = name, tagLine = ''EUW'',
      platform = Some ''euw1'', puuid = Some ''P'',
      currentRank = Some ((ranked ''GOLD'' ''IV'' 10)\<lparr>wins := Some 10, losses := Some 10\<rparr>),
      lastRank = None, soloWL = Some (10, 10),
      champGamesByYear = [(2026, demo_stats)], last5 = None, lastUpdatedAt = None,
      pendingBan = None, bans = [], needsCatchup = False, lastError = None\<rparr>"

definition demo_match :: "int \<Rightarrow> match_detail" where
  "demo_match dur =
     Some \<lparr>gameDuration = Some dur,
           participants = [\<lparr>part_puuid = Some ''P'', championId = Some 7, win = True,
                            kills = Some 1, deaths = Some 2, assists = Some 3\<rparr>],
           gameEndTimestamp = Some 5, info_queueId = Some 420\<rparr>"

definition demo_world :: "string list \<Rightarrow> int \<Rightarrow> world" where
  "demo_world ids dur =
     \<lparr>clock = (\<lambda>n. 1000 + n),
      riot_account = (\<lambda>g t. Inr (Some ''P'')),
      riot_league = (\<lambda>pf pu. Inr (Some [\<lparr>queueType = Some ''RANKED_SOLO_5x5'',
                                           le_tier = Some ''GOLD'', le_rank = Some ''III'',
                                           leaguePoints = Some 0, le_wins = Some 11,
                                           le_losses = Some 10\<rparr>])),
      riot_match_ids = paged ids,
      riot_match = (\<lambda>region i. Inr (demo_match dur)),
      ddragon = Inr [\<lparr>cat_key = ''7'', cat_name = ''Seven'', cat_icon = ''7.png''\<rparr>]\<rparr>"

definition demo_env :: "int \<Rightarrow> player list \<Rightarrow> env" where
  "demo_env b roster =
     \<lparr>MATCH_DETAIL_BUDGET = b, matchDetailCache = Map.empty,
      disk = \<lparr>players = roster, banHistory = [], globalLastUpdatedAt = None\<rparr>,
      clock_reads = 0\<rparr>"

text \<open>A run that completes: three new ids in front of the marker and a
  budget of twenty.\<close>

definition demo_full_run :: "(exn + bool) \<times> env \<times> player" where
  "demo_full_run =
     incremental_update (demo_world [''m3'', ''m2'', ''m1'', ''m0''] 1800)
       (demo_env 20 [demo_player ''p1'']) (demo_player ''p1'') 2026 (Some 420)"

text \<open>A second run right after it, on the same listing.\<close>

definition demo_replay_run :: "(exn + bool) \<times> env \<times> player" where
  "demo_replay_run =
     incremental_update (demo_world [''m3'', ''m2'', ''m1'', ''m0''] 1800)
       (fst (snd demo_full_run)) (snd (snd demo_full_run)) 2026 (Some 420)"

text \<open>The same first run where every record lasts 200 seconds, and where
  every record lasts 0 seconds.\<close>

definition demo_remake_run :: "(exn + bool) \<times> env \<times> player" where
  "demo_remake_run =
     incremental_update (demo_world [''m3'', ''m2'', ''m1'', ''m0''] 200)
       (demo_env 20 [demo_player ''p1'']) (demo_player ''p1'') 2026 (Some 420)"

definition demo_zero_run :: "(exn + bool) \<times> env \<times> player" where
  "demo_zero_run =
     incremental_update (demo_world [''m3'', ''m2'', ''m1'', ''m0''] 0)
       (demo_env 20 [demo_player ''p1'']) (demo_player ''p1'') 2026 (Some 420)"

text \<open>A history in which the marker \<open>m0\<close> is the 101st newest id.\<close>

definition demo_long_history :: "string list" where
  "demo_long_history = replicate 100 ''mx'' @ [''m0'', ''old'']"

definition demo_page_run :: "(exn + bool) \<times> env \<times> player" where
  "demo_page_run =
     incremental_update (demo_world demo_long_history 1800)
       (demo_env 20 [demo_player ''p1'']) (demo_player ''p1'') 2026 (Some 420)"

text \<open>A run that the budget cuts off: three new ids in front of the marker
  and a budget of one.\<close>

definition demo_cut_run :: "(exn + bool) \<times> env \<times> player" where
  "demo_cut_run =
     incremental_update (demo_world [''m3'', ''m2'', ''m1'', ''m0''] 1800)
       (demo_env 1 [demo_player ''p1'']) (demo_player ''p1'') 2026 (Some 420)"

text \<open>The next run on what the cut-off run left, with the same listing.\<close>

definition demo_after_cut_run :: "(exn + bool) \<times> env \<times> player" where
  "demo_after_cut_run =
     incremental_update (demo_world [''m3'', ''m2'', ''m1'', ''m0''] 1800)
       (fst (snd demo_cut_run)) (snd (snd demo_cut_run)) 2026 (Some 420)"

text \<open>
  What the \<open>try\<close> block may do to the record of the player it refreshes, as far
  as bans and the pending promotion go: it leaves both alone, or it creates the
  pending promotion where there was none, from the rank the cycle compared
  with to a fresh rank that is a promotion over it.
\<close>

definition compared_rank :: "player \<Rightarrow> rank_snapshot" where
  "compared_rank p = (case stored_rank p of None \<Rightarrow> unranked_snapshot | Some r \<Rightarrow> r)"

definition pending_step :: "time \<Rightarrow> player \<Rightarrow> player \<Rightarrow> bool" where
  "pending_step now p p' =
     (bans p' = bans p \<and> player_id p' = player_id p
      \<and> (pendingBan p' = pendingBan p
           \<or> (pendingBan p = None
               \<and> (\<exists>new. currentRank p' = Some new
                     \<and> isPromotion (Some (compared_rank p)) (Some new)
                     \<and> pendingBan p' = Some \<lparr>detectedAt = now, pb_from = compared_rank p,
                                               pb_to = new\<rparr>))))"

text \<open>A later state keeps every pending promotion of an earlier one, and its
  roster, ban lists and history.\<close>

definition keeps_pending :: "app_state \<Rightarrow> app_state \<Rightarrow> bool" where
  "keeps_pending a b =
     (length (players b) = length (players a) \<and> banHistory b = banHistory a
      \<and> (\<forall>j < length (players a).
            bans (players b ! j) = bans (players a ! j)
            \<and> player_id (players b ! j) = player_id (players a ! j)
            \<and> (\<forall>pb. pendingBan (players a ! j) = Some pb
                     \<longrightarrow> pendingBan (players b ! j) = Some pb)))"

text \<open>
  More example data: a pending promotion; a roster on disk; a player without a
  stored rank; a provider whose league lookup fails for \<open>P\<close>; a roster of two;
  a listing with 21 ids and one with 5 ids in front of the marker \<open>m0\<close>.
\<close>

definition demo_pending :: pending_ban where
  "demo_pending =
     \<lparr>detectedAt = 7, pb_from = ranked ''SILVER'' ''I'' 80, pb_to = ranked ''GOLD'' ''IV'' 0\<rparr>"

definition demo_state :: "player list \<Rightarrow> app_state" where
  "demo_state roster = \<lparr>players = roster, banHistory = [], globalLastUpdatedAt = None\<rparr>"

definition demo_unranked_player :: player where
  "demo_unranked_player = (demo_player ''p1'')\<lparr>currentRank := None, lastRank := None\<rparr>"

definition demo_failing_world :: world where
  "demo_failing_world =
     (demo_world [''m3'', ''m2'', ''m1'', ''m0''] 1800)
       \<lparr>riot_league := (\<lambda>pf pu. if pu = ''P''
                                 then Inl (Error ''Riot API 500 Internal Server Error: '')
                                 else riot_league (demo_world [''m3'', ''m2'', ''m1'', ''m0''] 1800)
                                        pf pu)\<rparr>"

definition demo_roster :: "player list" where
  "demo_roster = [demo_player ''p1'', (demo_player ''p2'')\<lparr>puuid := Some ''Q''\<rparr>]"

definition demo_backlog :: "string list" where
  "demo_backlog = [''b21'', ''b20'', ''b19'', ''b18'', ''b17'', ''b16'', ''b15'', ''b14'', ''b13'', ''b12'', ''b11'', ''b10'', ''b09'', ''b08'', ''b07'', ''b06'', ''b05'', ''b04'', ''b03'', ''b02'', ''b01'', ''m0'']"

definition demo_five :: "string list" where
  "demo_five = [''m5'', ''m4'', ''m3'', ''m2'', ''m1'', ''m0'']"

definition demo_pending_player :: player where
  "demo_pending_player = (demo_player ''p1'')\<lparr>pendingBan := Some demo_pending\<rparr>"

text \<open>One roster iteration for the player with a pending promotion, for the
  player without a stored rank, and for the first player with a budget of two.\<close>

definition demo_pending_refresh :: "(exn + unit) \<times> env \<times> app_state" where
  "demo_pending_refresh =
     refresh_player (demo_world demo_five 1800) 1000 (demo_env 20 [demo_pending_player])
       (demo_state [demo_pending_player]) 0"

definition demo_unranked_refresh :: "(exn + unit) \<times> env \<times> app_state" where
  "demo_unranked_refresh =
     refresh_player (demo_world demo_five 1800) 1000 (demo_env 20 [demo_unranked_player])
       (demo_state [demo_unranked_player]) 0"

definition demo_cut_refresh :: "(exn + unit) \<times> env \<times> app_state" where
  "demo_cut_refresh =
     refresh_player (demo_world demo_five 1800) 1000 (demo_env 2 [demo_player ''p1''])
       (demo_state [demo_player ''p1'']) 0"

text \<open>The aggregator alone on five new ids with a budget of two.\<close>

definition demo_five_run :: "(exn + bool) \<times> env \<times> player" where
  "demo_five_run =
     incremental_update (demo_world demo_five 1800) (demo_env 2 [demo_player ''p1''])
       (demo_player ''p1'') 2026 (Some 420)"

text \<open>A player with a pending promotion and one ban, a history of one entry, and
  three requests: a champion that is banned already, a new champion, and a
  request for a player without a pending promotion.\<close>

definition demo_banned_player :: player where
  "demo_banned_player =
     demo_pending_player\<lparr>bans := [\<lparr>ban_time = 3, ban_champion = ''Lee Sin'', ban_note = []\<rparr>]\<rparr>"

definition demo_old_entry :: history_entry where
  "demo_old_entry =
     \<lparr>he_time = 3, he_playerId = ''p1'', he_playerName = ''p1'', he_champion = ''Lee Sin'',
      he_note = [], promotion = None\<rparr>"

definition demo_ban_env :: env where
  "demo_ban_env =
     (demo_env 0 [])
       \<lparr>disk := \<lparr>players = [demo_banned_player, demo_player ''p2''],
                   banHistory = [demo_old_entry], globalLastUpdatedAt = None\<rparr>\<rparr>"

definition demo_dup_request :: ban_request where
  "demo_dup_request =
     \<lparr>req_playerId = Some ''p1'', req_champion = Some ''  lee   SIN '', req_note = None\<rparr>"

definition demo_new_request :: ban_request where
  "demo_new_request =
     \<lparr>req_playerId = Some ''p1'', req_champion = Some '' Ahri '', req_note = Some ''first''\<rparr>"

definition demo_early_request :: ban_request where
  "demo_early_request =
     \<lparr>req_playerId = Some ''p2'', req_champion = Some ''Ahri'', req_note = None\<rparr>"

section \<open>The promotion ordering\<close>

lemma lookup0_tierOrder: "lookup0 tierOrder s = pos_in tier_ladder s"
  by (simp add: lookup0_def tierOrder_def tier_ladder_def)

lemma lookup0_divOrder: "lookup0 divOrder s = pos_in division_ladder s"
  by (simp add: lookup0_def divOrder_def division_ladder_def)

lemma apex_iff: "(pos_in tier_ladder s \<ge> 8) \<longleftrightarrow> s \<in> set apex_tiers"
  by (simp add: tier_ladder_def apex_tiers_def)

lemma master_pos: "pos_in tier_ladder ''MASTER'' = 8"
  by (simp add: tier_ladder_def)

lemma rankValue_lex:
  assumes "\<not> unranked a" and "\<not> unranked b"
  shows "rankValue (Some a) (Some b) \<longleftrightarrow>
           tier_pos a < tier_pos b \<or> (tier_pos a = tier_pos b \<and> division_pos a < division_pos b)"
  using assms
  by (auto simp add: rankValue_def Let_def master_pos lookup0_tierOrder lookup0_divOrder
        tier_pos_def division_pos_def apex_iff[symmetric] simp del: pos_in.simps)

lemma upper_rank_names:
  "toUpperCase ''SILVER'' = ''SILVER''" "toUpperCase ''GOLD'' = ''GOLD''"
  "toUpperCase ''DIAMOND'' = ''DIAMOND''" "toUpperCase ''MASTER'' = ''MASTER''"
  "toUpperCase ''IV'' = ''IV''" "toUpperCase ''II'' = ''II''" "toUpperCase ''I'' = ''I''"
  "toUpperCase ''GRANDMASTER'' = ''GRANDMASTER''" "toUpperCase ''CHALLENGER'' = ''CHALLENGER''"
  by code_simp+

lemma apex_division_pos: "t \<in> set apex_tiers \<Longrightarrow> division_pos (ranked t d p) = 0"
  by (auto simp add: apex_tiers_def division_pos_def ranked_def str_or_empty_def upper_rank_names)

lemma ranked_tier_pos: "tier_pos (ranked t d p) = pos_in tier_ladder (toUpperCase t)"
  by (simp add: tier_pos_def ranked_def str_or_empty_def)

lemma ranked_pos:
  "tier_pos (ranked ''SILVER'' d x) = 3" "tier_pos (ranked ''GOLD'' d x) = 4"
  "tier_pos (ranked ''DIAMOND'' d x) = 7" "tier_pos (ranked ''MASTER'' d x) = 8"
  "division_pos (ranked ''SILVER'' ''II'' x) = 3" "division_pos (ranked ''SILVER'' ''I'' x) = 4"
  "division_pos (ranked ''GOLD'' ''IV'' x) = 1" "division_pos (ranked ''MASTER'' d x) = 0"
  by (simp_all add: tier_pos_def division_pos_def ranked_def str_or_empty_def upper_rank_names
        tier_ladder_def division_ladder_def apex_tiers_def)

lemma ranked_not_unranked: "\<not> unranked (ranked t d x)"
  by (simp add: ranked_def)

lemma rankValue_lp_irrelevant:
  "rankValue (Some (a\<lparr>lp := x\<rparr>)) (Some (b\<lparr>lp := y\<rparr>)) = rankValue (Some a) (Some b)"
  by (simp add: rankValue_def)

text \<open>
  C4. For two ranked snapshots the comparison is the strict lexicographic
  order of the position of the tier on the ladder (IRON lowest, CHALLENGER
  highest) and then of the position of the division (IV lowest, I highest),
  where MASTER, GRANDMASTER and CHALLENGER have no division. Two snapshots with
  the same tier and division are never a promotion, and league points never
  enter: changing them on either side leaves the result as it is. In
  particular SILVER II is below SILVER I, which is below GOLD IV, and MASTER is
  above DIAMOND I, for all league points.
\<close>

theorem rankValue_promotion_order:
  assumes "\<not> unranked a" and "\<not> unranked b"
  shows "(rankValue (Some a) (Some b) \<longleftrightarrow>
            tier_pos a < tier_pos b \<or> (tier_pos a = tier_pos b \<and> division_pos a < division_pos b))
       \<and> (tier a = tier b \<and> division a = division b \<longrightarrow> \<not> rankValue (Some a) (Some b))
       \<and> rankValue (Some (a\<lparr>lp := x\<rparr>)) (Some (b\<lparr>lp := y\<rparr>)) = rankValue (Some a) (Some b)
       \<and> (\<forall>p q. rankValue (Some (ranked ''SILVER'' ''II'' p)) (Some (ranked ''SILVER'' ''I'' q))
               \<and> rankValue (Some (ranked ''SILVER'' ''I'' p)) (Some (ranked ''GOLD'' ''IV'' q))
               \<and> rankValue (Some (ranked ''SILVER'' ''II'' p)) (Some (ranked ''GOLD'' ''IV'' q))
               \<and> \<not> rankValue (Some (ranked ''SILVER'' ''I'' p)) (Some (ranked ''SILVER'' ''II'' q))
               \<and> \<not> rankValue (Some (ranked ''GOLD'' ''IV'' p)) (Some (ranked ''SILVER'' ''I'' q)))
       \<and> (\<forall>d p q. rankValue (Some (ranked ''DIAMOND'' ''I'' p)) (Some (ranked ''MASTER'' d q))
               \<and> \<not> rankValue (Some (ranked ''MASTER'' d q)) (Some (ranked ''DIAMOND'' ''I'' p)))
       \<and> (\<forall>t. t \<in> set apex_tiers \<longrightarrow> (\<forall>d d' p q. \<not> rankValue (Some (ranked t d p)) (Some (ranked t d' q))))"
proof -
  have lex: "rankValue (Some a) (Some b) \<longleftrightarrow>
            tier_pos a < tier_pos b \<or> (tier_pos a = tier_pos b \<and> division_pos a < division_pos b)"
    using assms by (rule rankValue_lex)
  have same: "tier a = tier b \<and> division a = division b \<longrightarrow> \<not> rankValue (Some a) (Some b)"
    by (simp add: lex tier_pos_def division_pos_def)
  have lpfree: "rankValue (Some (a\<lparr>lp := x\<rparr>)) (Some (b\<lparr>lp := y\<rparr>)) = rankValue (Some a) (Some b)"
    by (rule rankValue_lp_irrelevant)
  have silver_gold: "\<forall>p q. rankValue (Some (ranked ''SILVER'' ''II'' p)) (Some (ranked ''SILVER'' ''I'' q))
               \<and> rankValue (Some (ranked ''SILVER'' ''I'' p)) (Some (ranked ''GOLD'' ''IV'' q))
               \<and> rankValue (Some (ranked ''SILVER'' ''II'' p)) (Some (ranked ''GOLD'' ''IV'' q))
               \<and> \<not> rankValue (Some (ranked ''SILVER'' ''I'' p)) (Some (ranked ''SILVER'' ''II'' q))
               \<and> \<not> rankValue (Some (ranked ''GOLD'' ''IV'' p)) (Some (ranked ''SILVER'' ''I'' q))"
    by (simp add: rankValue_lex ranked_not_unranked ranked_pos)
  have master: "\<forall>d p q. rankValue (Some (ranked ''DIAMOND'' ''I'' p)) (Some (ranked ''MASTER'' d q))
               \<and> \<not> rankValue (Some (ranked ''MASTER'' d q)) (Some (ranked ''DIAMOND'' ''I'' p))"
    by (simp add: rankValue_lex ranked_not_unranked ranked_pos)
  have apex: "\<forall>t. t \<in> set apex_tiers \<longrightarrow> (\<forall>d d' p q. \<not> rankValue (Some (ranked t d p)) (Some (ranked t d' q)))"
    by (simp add: rankValue_lex ranked_not_unranked apex_division_pos ranked_tier_pos)
  from lex same lpfree silver_gold master apex show ?thesis by blast
qed

theorem rankValue_promotion_order_witness:
  "\<not> unranked (ranked ''GOLD'' ''II'' 10) \<and> \<not> unranked (ranked ''GOLD'' ''II'' 90)
   \<and> tier (ranked ''GOLD'' ''II'' 10) = tier (ranked ''GOLD'' ''II'' 90)
   \<and> division (ranked ''GOLD'' ''II'' 10) = division (ranked ''GOLD'' ''II'' 90)
   \<and> \<not> rankValue (Some (ranked ''GOLD'' ''II'' 10)) (Some (ranked ''GOLD'' ''II'' 90))
   \<and> ''MASTER'' \<in> set apex_tiers
   \<and> \<not> rankValue (Some (ranked ''MASTER'' ''IV'' 0)) (Some (ranked ''MASTER'' ''I'' 500))"
proof -
  have a: "\<not> unranked (ranked ''GOLD'' ''II'' 10)" and b: "\<not> unranked (ranked ''GOLD'' ''II'' 90)"
    by (simp_all add: ranked_def)
  have eq: "tier (ranked ''GOLD'' ''II'' 10) = tier (ranked ''GOLD'' ''II'' 90)
            \<and> division (ranked ''GOLD'' ''II'' 10) = division (ranked ''GOLD'' ''II'' 90)"
    by (simp add: ranked_def)
  have m: "''MASTER'' \<in> set apex_tiers"
    by (simp add: apex_tiers_def)
  from rankValue_promotion_order [OF a b] eq m a b show ?thesis
    by blast
qed

section \<open>The aggregator: counting and consistency\<close>

lemma counts_total_update:
  "counts_total (AList.update c v obj) = counts_total obj - num0 (map_of obj c) + v"
  by (induction obj) (auto simp add: counts_total_def num0_def)

lemma counts_total_bump:
  "counts_total (AList.update c (num0 (map_of obj c) + 1) obj) = counts_total obj + 1"
  by (simp add: counts_total_update)

lemma sum_insort_key:
  "sum_list (map f (insort_key k x xs)) = (f x :: int) + sum_list (map f xs)"
  by (induction xs) auto

lemma sum_sort_key: "sum_list (map f (sort_key k xs)) = (sum_list (map f xs) :: int)"
  by (induction xs) (auto simp add: sort_key_def sum_insort_key)

lemma sum_filter_split:
  "sum_list (map f (filter P xs)) + sum_list (map f (filter (\<lambda>x. \<not> P x) xs)) = sum_list (map (f::'a \<Rightarrow> int) xs)"
  by (induction xs) auto

lemma counts_total_entries: "counts_total (object_entries obj) = counts_total obj"
  by (simp add: counts_total_def object_entries_def sum_sort_key sum_filter_split)

lemma rows_total_rebuild: "rows_total (rebuild_byChampion champions obj) = counts_total obj"
proof -
  have "rows_total (rebuild_byChampion champions obj) = counts_total (object_entries obj)"
    by (simp add: rows_total_def rebuild_byChampion_def sum_sort_key counts_total_def comp_def)
  then show ?thesis by (simp add: counts_total_entries)
qed

lemma foldl_update_fresh:
  "distinct (map row_championId rows) \<Longrightarrow>
   \<forall>r \<in> set rows. row_championId r \<notin> fst ` set acc \<Longrightarrow>
   counts_total (foldl (\<lambda>obj row. AList.update (row_championId row) (row_count row) obj) acc rows)
     = counts_total acc + rows_total rows"
proof (induction rows arbitrary: acc)
  case Nil
  then show ?case by (simp add: rows_total_def)
next
  case (Cons r rows)
  have fresh: "map_of acc (row_championId r) = None"
    using Cons.prems(2) by (simp add: map_of_eq_None_iff)
  have step: "counts_total (AList.update (row_championId r) (row_count r) acc) = counts_total acc + row_count r"
    by (simp add: counts_total_update fresh num0_def)
  have keys: "fst ` set (AList.update (row_championId r) (row_count r) acc) = insert (row_championId r) (fst ` set acc)"
    by (induction acc) auto
  have "counts_total (foldl (\<lambda>obj row. AList.update (row_championId row) (row_count row) obj)
           (AList.update (row_championId r) (row_count r) acc) rows)
        = counts_total (AList.update (row_championId r) (row_count r) acc) + rows_total rows"
  proof (rule Cons.IH)
    show "distinct (map row_championId rows)"
      using Cons.prems(1) by simp
    show "\<forall>x\<in>set rows. row_championId x
             \<notin> fst ` set (AList.update (row_championId r) (row_count r) acc)"
      using Cons.prems keys by (auto simp add: image_iff) 
  qed
  then show ?case by (simp add: step rows_total_def)
qed

lemma ensureCountsMap_ok:
  "aggregate_ok stats \<or> legacy_ok stats \<Longrightarrow> aggregate_ok (ensureCountsMap stats)"
proof (cases "countsByChampionId stats")
  case None
  assume "aggregate_ok stats \<or> legacy_ok stats"
  with None have leg: "legacy_ok stats"
    by (simp add: aggregate_ok_def)
  have "counts_total (foldl (\<lambda>obj row. AList.update (row_championId row) (row_count row) obj)
           [] (byChampion stats)) = counts_total [] + rows_total (byChampion stats)"
    using leg by (intro foldl_update_fresh) (simp_all add: legacy_ok_def)
  then show ?thesis
    using leg None by (simp add: aggregate_ok_def legacy_ok_def ensureCountsMap_def counts_total_def)
next
  case (Some obj)
  assume "aggregate_ok stats \<or> legacy_ok stats"
  with Some show ?thesis
    by (simp add: legacy_ok_def ensureCountsMap_def)
qed


lemma key_inject: "region @ '':'' @ i = region @ '':'' @ j \<longleftrightarrow> i = j"
  by simp

lemma fetch_resolve:
  "fetchMatchDetail w e region i = (r, e') \<Longrightarrow> resolve w e' region j = resolve w e region j"
  by (auto simp add: fetchMatchDetail_def resolve_def Let_def split: option.splits if_splits sum.splits)

lemma fetch_ok_resolve:
  "fetchMatchDetail w e region i = (Inr m, e') \<Longrightarrow> resolve w e region i = Inr m"
  by (auto simp add: fetchMatchDetail_def resolve_def Let_def split: option.splits if_splits sum.splits)

lemma counts_for_fetch:
  "fetchMatchDetail w e region i = (r, e') \<Longrightarrow> counts_for w e' region pu = counts_for w e region pu"
  by (rule ext) (simp add: counts_for_def fetch_resolve)

lemma count_game_Some:
  "countsByChampionId stats = Some obj \<Longrightarrow>
   count_game stats c =
     Inr (stats\<lparr>countsByChampionId := Some (AList.update c (num0 (map_of obj c) + 1) obj),
               totalGames := totalGames stats + 1\<rparr>)"
  by (simp add: count_game_def)

lemma count_new_matches_shape:
  "count_new_matches w region pu ids e stats added = (r, e', stats') \<Longrightarrow>
   countsByChampionId stats = Some obj \<Longrightarrow>
   \<exists>obj'. countsByChampionId stats' = Some obj'
     \<and> counts_total obj' - counts_total obj = totalGames stats' - totalGames stats
     \<and> stats' = stats\<lparr>countsByChampionId := Some obj', totalGames := totalGames stats'\<rparr>"
proof (induction w region pu ids e stats added arbitrary: obj rule: count_new_matches.induct)
  case (1 w region pu e stats added)
  then show ?case by auto
next
  case (2 w region pu matchId rest e stats added)
  obtain fr e1 where f: "(fr, e1) = fetchMatchDetail w e region matchId"
    by (cases "fetchMatchDetail w e region matchId") simp
  show ?case
  proof (cases fr)
    case (Inl x)
    with f[symmetric] "2.prems" show ?thesis by auto
  next
    case (Inr m)
    note m = this
    show ?thesis
    proof (cases "is_remake m")
      case True
      have "count_new_matches w region pu rest e1 stats added = (r, e', stats')"
        using f[symmetric] m True "2.prems"(1) by simp
      then show ?thesis
        by (rule "2.IH"(1)[OF f m True _ "2.prems"(2)])
    next
      case False
      note nr = this
      show ?thesis
      proof (cases "case find_me m pu of None \<Rightarrow> None | Some me \<Rightarrow> championId me")
        case None
        have "count_new_matches w region pu rest e1 stats added = (r, e', stats')"
          using f[symmetric] m nr None "2.prems"(1) by simp
        then show ?thesis
          by (rule "2.IH"(2)[OF f m nr None _ "2.prems"(2)])
      next
        case (Some c)
        let ?obj1 = "AList.update c (num0 (map_of obj c) + 1) obj"
        let ?s1 = "stats\<lparr>countsByChampionId := Some ?obj1, totalGames := totalGames stats + 1\<rparr>"
        have cg: "count_game stats c = Inr ?s1"
          using "2.prems"(2) by (rule count_game_Some)
        have run: "count_new_matches w region pu rest e1 ?s1 (Suc added) = (r, e', stats')"
          using f[symmetric] m nr Some cg "2.prems"(1) by simp
        have "\<exists>obj'. countsByChampionId stats' = Some obj'
               \<and> counts_total obj' - counts_total ?obj1 = totalGames stats' - totalGames ?s1
               \<and> stats' = ?s1\<lparr>countsByChampionId := Some obj', totalGames := totalGames stats'\<rparr>"
          by (rule "2.IH"(3)[OF f m nr Some cg run]) simp
        then show ?thesis
          by (auto simp add: counts_total_bump)
      qed
    qed
  qed
qed

lemma walk_result_skip:
  assumes "walk_result w e1 region pu rest stats added r e' stats'"
    and "counts_for w e1 region pu = counts_for w e region pu"
    and "\<not> counts_for w e region pu matchId"
  shows "walk_result w e region pu (matchId # rest) stats added r e' stats'"
proof (cases r)
  case (Inr added')
  with assms show ?thesis by (simp add: walk_result_def)
next
  case (Inl x)
  with assms(1) obtain seen bad rest' where d: "rest = seen @ bad # rest'"
    and t: "totalGames stats' = totalGames stats + int (length (filter (counts_for w e1 region pu) seen))"
    and c: "matchDetailCache e' (region @ '':'' @ bad) = None"
    and x: "(x = Error ''MATCH_DETAIL_BUDGET_EXCEEDED'' \<and> MATCH_DETAIL_BUDGET e' \<le> 0)
                  \<or> riot_match w region bad = Inl x"
    by (auto simp add: walk_result_def)
  have "matchId # rest = (matchId # seen) @ bad # rest'"
    using d by simp
  moreover have "totalGames stats' = totalGames stats
        + int (length (filter (counts_for w e region pu) (matchId # seen)))"
    using t assms(2,3) by simp
  ultimately show ?thesis
    using Inl c x unfolding walk_result_def by (simp only: sum.case) blast
qed

lemma walk_result_count:
  assumes "walk_result w e1 region pu rest stats1 (Suc added) r e' stats'"
    and "counts_for w e1 region pu = counts_for w e region pu"
    and "counts_for w e region pu matchId"
    and "totalGames stats1 = totalGames stats + 1"
  shows "walk_result w e region pu (matchId # rest) stats added r e' stats'"
proof (cases r)
  case (Inr added')
  with assms show ?thesis by (simp add: walk_result_def)
next
  case (Inl x)
  with assms(1) obtain seen bad rest' where d: "rest = seen @ bad # rest'"
    and t: "totalGames stats' = totalGames stats1 + int (length (filter (counts_for w e1 region pu) seen))"
    and c: "matchDetailCache e' (region @ '':'' @ bad) = None"
    and x: "(x = Error ''MATCH_DETAIL_BUDGET_EXCEEDED'' \<and> MATCH_DETAIL_BUDGET e' \<le> 0)
                  \<or> riot_match w region bad = Inl x"
    by (auto simp add: walk_result_def)
  have "matchId # rest = (matchId # seen) @ bad # rest'"
    using d by simp
  moreover have "totalGames stats' = totalGames stats
        + int (length (filter (counts_for w e region pu) (matchId # seen)))"
    using t assms(2,3,4) by simp
  ultimately show ?thesis
    using Inl c x unfolding walk_result_def by (simp only: sum.case) blast
qed

lemma fetch_fails:
  "fetchMatchDetail w e region i = (Inl x, e1) \<Longrightarrow>
   matchDetailCache e1 (region @ '':'' @ i) = None
   \<and> ((x = Error ''MATCH_DETAIL_BUDGET_EXCEEDED'' \<and> MATCH_DETAIL_BUDGET e1 \<le> 0)
        \<or> riot_match w region i = Inl x)"
  by (auto simp add: fetchMatchDetail_def Let_def split: option.splits if_splits sum.splits)

lemma count_new_matches_walk:
  "count_new_matches w region pu ids e stats added = (r, e', stats') \<Longrightarrow>
   countsByChampionId stats = Some obj \<Longrightarrow>
   walk_result w e region pu ids stats added r e' stats'"
proof (induction w region pu ids e stats added arbitrary: obj rule: count_new_matches.induct)
  case (1 w region pu e stats added)
  then show ?case by (auto simp add: walk_result_def)
next
  case (2 w region pu matchId rest e stats added)
  obtain fr e1 where f: "(fr, e1) = fetchMatchDetail w e region matchId"
    by (cases "fetchMatchDetail w e region matchId") simp
  have cf: "counts_for w e1 region pu = counts_for w e region pu"
    using f[symmetric] by (rule counts_for_fetch)
  show ?case
  proof (cases fr)
    case (Inl x)
    have res: "r = Inl x" "e' = e1" "stats' = stats"
      using f[symmetric] Inl "2.prems"(1) by simp_all
    have "matchId # rest = [] @ matchId # rest" by simp
    moreover have "totalGames stats' = totalGames stats
        + int (length (filter (counts_for w e region pu) []))"
      using res by simp
    moreover note fetch_fails[OF f[symmetric, unfolded Inl]]
    ultimately show ?thesis
      using res unfolding walk_result_def by (simp only: sum.case) blast
  next
    case (Inr m)
    note m = this
    have rs: "resolve w e region matchId = Inr m"
      using f[symmetric] m by (simp add: fetch_ok_resolve)
    show ?thesis
    proof (cases "is_remake m")
      case True
      have run: "count_new_matches w region pu rest e1 stats added = (r, e', stats')"
        using f[symmetric] m True "2.prems"(1) by simp
      have "walk_result w e1 region pu rest stats added r e' stats'"
        using run by (rule "2.IH"(1)[OF f m True _ "2.prems"(2)])
      moreover have "\<not> counts_for w e region pu matchId"
        using rs True by (simp add: counts_for_def counted_champion_def)
      ultimately show ?thesis
        using cf by (intro walk_result_skip[where ?e1.0=e1]) simp_all
    next
      case False
      note nr = this
      show ?thesis
      proof (cases "case find_me m pu of None \<Rightarrow> None | Some me \<Rightarrow> championId me")
        case None
        have run: "count_new_matches w region pu rest e1 stats added = (r, e', stats')"
          using f[symmetric] m nr None "2.prems"(1) by simp
        have "walk_result w e1 region pu rest stats added r e' stats'"
          using run by (rule "2.IH"(2)[OF f m nr None _ "2.prems"(2)])
        moreover have "\<not> counts_for w e region pu matchId"
          using rs nr None by (simp add: counts_for_def counted_champion_def)
        ultimately show ?thesis
          using cf by (intro walk_result_skip[where ?e1.0=e1]) simp_all
      next
        case (Some c)
        let ?obj1 = "AList.update c (num0 (map_of obj c) + 1) obj"
        let ?s1 = "stats\<lparr>countsByChampionId := Some ?obj1, totalGames := totalGames stats + 1\<rparr>"
        have cg: "count_game stats c = Inr ?s1"
          using "2.prems"(2) by (rule count_game_Some)
        have run: "count_new_matches w region pu rest e1 ?s1 (Suc added) = (r, e', stats')"
          using f[symmetric] m nr Some cg "2.prems"(1) by simp
        have "walk_result w e1 region pu rest ?s1 (Suc added) r e' stats'"
          by (rule "2.IH"(3)[OF f m nr Some cg run]) simp
        moreover have "counts_for w e region pu matchId"
          using rs nr Some by (simp add: counts_for_def counted_champion_def)
        ultimately show ?thesis
          using cf by (intro walk_result_count[where ?e1.0=e1 and ?stats1.0="?s1"]) simp_all
      qed
    qed
  qed
qed


lemma incremental_update_cases:
  assumes run: "incremental_update w e p0 yr q = (r, e', p')"
  obtains
    (identity_fails) x where
      "ensurePuuidAndSummonerId w p0 = Inl x" "r = Inl x" "e' = e" "p' = p0"
  | (listing_fails) p x where
      "ensurePuuidAndSummonerId w p0 = Inr p"
      "riot_match_ids w (regionalForPlatform (platform p)) (js_String_str (puuid p)) (year_query yr q) = Inl x"
      "r = Inl x" "e' = e" "p' = put_stats p yr (open_stats p yr q)"
  | (nothing_listed) p listing where
      "ensurePuuidAndSummonerId w p0 = Inr p"
      "riot_match_ids w (regionalForPlatform (platform p)) (js_String_str (puuid p)) (year_query yr q) = Inr listing"
      "listing = None \<or> listing = Some []"
      "r = Inr False" "e' = e" "p' = put_stats p yr (open_stats p yr q)"
  | (marker_seeded) p newest older where
      "ensurePuuidAndSummonerId w p0 = Inr p"
      "riot_match_ids w (regionalForPlatform (platform p)) (js_String_str (puuid p)) (year_query yr q) = Inr (Some (newest # older))"
      "\<not> truthy_str (latestMatchId (open_stats p yr q))"
      "r = Inr True" "e' = snd (read_clock w e)"
      "p' = put_stats p yr ((open_stats p yr q)\<lparr>latestMatchId := Some newest,
                                                  computedAt := Some (fst (read_clock w e))\<rparr>)"
  | (nothing_new) p newest older where
      "ensurePuuidAndSummonerId w p0 = Inr p"
      "riot_match_ids w (regionalForPlatform (platform p)) (js_String_str (puuid p)) (year_query yr q) = Inr (Some (newest # older))"
      "truthy_str (latestMatchId (open_stats p yr q))"
      "new_ids (newest # older) (latestMatchId (open_stats p yr q)) = []"
      "r = Inr True" "e' = snd (read_clock w e)"
      "p' = put_stats p yr ((open_stats p yr q)\<lparr>latestMatchId := Some newest,
                                                  computedAt := Some (fst (read_clock w e))\<rparr>)"
  | (catalog_fails) p newest older x where
      "ensurePuuidAndSummonerId w p0 = Inr p"
      "riot_match_ids w (regionalForPlatform (platform p)) (js_String_str (puuid p)) (year_query yr q) = Inr (Some (newest # older))"
      "truthy_str (latestMatchId (open_stats p yr q))"
      "new_ids (newest # older) (latestMatchId (open_stats p yr q)) \<noteq> []"
      "ddragon w = Inl x"
      "r = Inl x" "e' = e"
      "p' = put_stats p yr ((open_stats p yr q)\<lparr>latestMatchId := Some newest\<rparr>)"
  | (walk_fails) p newest older champions x stats3 where
      "ensurePuuidAndSummonerId w p0 = Inr p"
      "riot_match_ids w (regionalForPlatform (platform p)) (js_String_str (puuid p)) (year_query yr q) = Inr (Some (newest # older))"
      "truthy_str (latestMatchId (open_stats p yr q))"
      "new_ids (newest # older) (latestMatchId (open_stats p yr q)) \<noteq> []"
      "ddragon w = Inr champions"
      "count_new_matches w (regionalForPlatform (platform p)) (puuid p)
         (new_ids (newest # older) (latestMatchId (open_stats p yr q))) e
         ((open_stats p yr q)\<lparr>latestMatchId := Some newest\<rparr>) 0 = (Inl x, e', stats3)"
      "r = Inl x" "p' = put_stats p yr stats3"
  | (walk_done) p newest older champions added e1 stats3 where
      "ensurePuuidAndSummonerId w p0 = Inr p"
      "riot_match_ids w (regionalForPlatform (platform p)) (js_String_str (puuid p)) (year_query yr q) = Inr (Some (newest # older))"
      "truthy_str (latestMatchId (open_stats p yr q))"
      "new_ids (newest # older) (latestMatchId (open_stats p yr q)) \<noteq> []"
      "ddragon w = Inr champions"
      "count_new_matches w (regionalForPlatform (platform p)) (puuid p)
         (new_ids (newest # older) (latestMatchId (open_stats p yr q))) e
         ((open_stats p yr q)\<lparr>latestMatchId := Some newest\<rparr>) 0 = (Inr added, e1, stats3)"
      "r = Inr True" "e' = snd (read_clock w e1)"
      "p' = put_stats p yr
              (stats3\<lparr>byChampion := rebuild_byChampion champions
                                        (case countsByChampionId stats3 of None \<Rightarrow> [] | Some obj \<Rightarrow> obj),
                       matchCount := Some (num0 (matchCount stats3)
                          + int (length (new_ids (newest # older) (latestMatchId (open_stats p yr q))))),
                       computedAt := Some (fst (read_clock w e1)),
                       lastIncrement := Some (length (new_ids (newest # older)
                                                 (latestMatchId (open_stats p yr q))), added)\<rparr>)"
      "countsByChampionId stats3 \<noteq> None"
  | (no_counts_object) p newest older added e1 stats3 where
      "count_new_matches w (regionalForPlatform (platform p)) (puuid p)
         (new_ids (newest # older) (latestMatchId (open_stats p yr q))) e
         ((open_stats p yr q)\<lparr>latestMatchId := Some newest\<rparr>) 0 = (Inr added, e1, stats3)"
      "countsByChampionId stats3 = None"
  using run unfolding incremental_update_def Let_def
  by (auto split: sum.splits option.splits list.splits prod.splits if_splits)


lemma ensure_frame:
  "ensurePuuidAndSummonerId w p = Inr p1 \<Longrightarrow> p1 = p\<lparr>puuid := puuid p1\<rparr>"
  by (auto simp add: ensurePuuidAndSummonerId_def split: if_splits sum.splits)

lemma ensure_get_stats:
  "ensurePuuidAndSummonerId w p = Inr p1 \<Longrightarrow> get_stats p1 yr = get_stats p yr"
  by (auto simp add: ensurePuuidAndSummonerId_def get_stats_def split: if_splits sum.splits)

lemma get_put_stats: "get_stats (put_stats p yr s) yr = Some s"
  by (simp add: get_stats_def put_stats_def update_conv')

lemma aggregate_ok_queueId: "aggregate_ok (s\<lparr>queueId := q\<rparr>) = aggregate_ok s"
  by (simp add: aggregate_ok_def split: option.splits)

lemma legacy_ok_queueId: "legacy_ok (s\<lparr>queueId := q\<rparr>) = legacy_ok s"
  by (simp add: legacy_ok_def)

lemma open_stats_ok:
  assumes "get_stats p yr = None \<or> (\<exists>s. get_stats p yr = Some s \<and> (aggregate_ok s \<or> legacy_ok s))"
  shows "aggregate_ok (open_stats p yr q)"
proof (cases "get_stats p yr")
  case None
  then show ?thesis
    by (simp add: open_stats_def ensureCountsMap_def aggregate_ok_def counts_total_def rows_total_def)
next
  case (Some s)
  with assms have "aggregate_ok (s\<lparr>queueId := q\<rparr>) \<or> legacy_ok (s\<lparr>queueId := q\<rparr>)"
    by (simp add: aggregate_ok_queueId legacy_ok_queueId)
  then have "aggregate_ok (ensureCountsMap (s\<lparr>queueId := q\<rparr>))"
    by (rule ensureCountsMap_ok)
  with Some show ?thesis by (simp add: open_stats_def)
qed

lemma open_stats_counts: "countsByChampionId (open_stats p yr q) \<noteq> None"
  by (simp add: open_stats_def ensureCountsMap_def split: option.splits)

lemma aggregate_ok_marker:
  "aggregate_ok (s\<lparr>latestMatchId := m\<rparr>) = aggregate_ok s"
  "aggregate_ok (s\<lparr>computedAt := t\<rparr>) = aggregate_ok s"
  by (simp_all add: aggregate_ok_def split: option.splits)

text \<open>
  C2, as amended. Let the stored aggregate be consistent before the run: there
  is none yet, or its three quantities are equal, or it was written without a
  counts object, with one row per champion and \<open>totalGames\<close> equal to the sum
  of the rows. Then after every run that returns normally \<open>totalGames\<close>, the
  sum of the values of \<open>countsByChampionId\<close> and the sum of the \<open>count\<close> fields
  of \<open>byChampion\<close> are all equal. After a run that an exception leaves, the
  exhausted budget among them, the player is untouched or \<open>totalGames\<close> equals
  the sum of the values of \<open>countsByChampionId\<close>.
\<close>

theorem count_consistency_preserved:
  assumes start: "get_stats p yr = None
                  \<or> (\<exists>s. get_stats p yr = Some s \<and> (aggregate_ok s \<or> legacy_ok s))"
    and run: "incremental_update w e p yr q = (r, e', p')"
  shows "(\<forall>saved. r = Inr saved \<longrightarrow> (\<exists>s'. get_stats p' yr = Some s' \<and> aggregate_ok s'))
       \<and> (\<forall>x. r = Inl x \<longrightarrow>
             p' = p \<or> (\<exists>s' obj. get_stats p' yr = Some s' \<and> countsByChampionId s' = Some obj
                          \<and> totalGames s' = counts_total obj))"
  using run
proof (cases rule: incremental_update_cases)
  case (identity_fails x)
  then show ?thesis by simp
next
  case (listing_fails p1 x)
  have "aggregate_ok (open_stats p1 yr q)"
    using start ensure_get_stats[OF listing_fails(1)] by (intro open_stats_ok) simp
  then show ?thesis
    using listing_fails by (auto simp add: get_put_stats aggregate_ok_def split: option.splits)
next
  case (nothing_listed p1 listing)
  have "aggregate_ok (open_stats p1 yr q)"
    using start ensure_get_stats[OF nothing_listed(1)] by (intro open_stats_ok) simp
  then show ?thesis
    using nothing_listed by (simp add: get_put_stats)
next
  case (marker_seeded p1 newest older)
  have "aggregate_ok (open_stats p1 yr q)"
    using start ensure_get_stats[OF marker_seeded(1)] by (intro open_stats_ok) simp
  then show ?thesis
    using marker_seeded by (simp add: get_put_stats aggregate_ok_marker)
next
  case (nothing_new p1 newest older)
  have "aggregate_ok (open_stats p1 yr q)"
    using start ensure_get_stats[OF nothing_new(1)] by (intro open_stats_ok) simp
  then show ?thesis
    using nothing_new by (simp add: get_put_stats aggregate_ok_marker)
next
  case (catalog_fails p1 newest older x)
  have "aggregate_ok (open_stats p1 yr q)"
    using start ensure_get_stats[OF catalog_fails(1)] by (intro open_stats_ok) simp
  then show ?thesis
    using catalog_fails by (auto simp add: get_put_stats aggregate_ok_def split: option.splits)
next
  case (walk_fails p1 newest older champions x stats3)
  have ok: "aggregate_ok (open_stats p1 yr q)"
    using start ensure_get_stats[OF walk_fails(1)] by (intro open_stats_ok) simp
  then obtain obj where obj: "countsByChampionId (open_stats p1 yr q) = Some obj"
    and tot: "totalGames (open_stats p1 yr q) = counts_total obj"
    by (auto simp add: aggregate_ok_def split: option.splits)
  from count_new_matches_shape[OF walk_fails(6), of obj] obj
  obtain obj' where "countsByChampionId stats3 = Some obj'"
    "counts_total obj' - counts_total obj = totalGames stats3 - totalGames (open_stats p1 yr q)"
    by auto
  then show ?thesis
    using walk_fails tot by (simp add: get_put_stats)
next
  case (walk_done p1 newest older champions added e1 stats3)
  have ok: "aggregate_ok (open_stats p1 yr q)"
    using start ensure_get_stats[OF walk_done(1)] by (intro open_stats_ok) simp
  then obtain obj where obj: "countsByChampionId (open_stats p1 yr q) = Some obj"
    and tot: "totalGames (open_stats p1 yr q) = counts_total obj"
    by (auto simp add: aggregate_ok_def split: option.splits)
  from count_new_matches_shape[OF walk_done(6), of obj] obj
  obtain obj' where "countsByChampionId stats3 = Some obj'"
    "counts_total obj' - counts_total obj = totalGames stats3 - totalGames (open_stats p1 yr q)"
    by auto
  then show ?thesis
    using walk_done tot by (simp add: get_put_stats aggregate_ok_def rows_total_rebuild)
next
  case (no_counts_object p1 newest older added e1 stats3)
  obtain obj where obj: "countsByChampionId (open_stats p1 yr q) = Some obj"
    using open_stats_counts[of p1 yr q] by auto
  from count_new_matches_shape[OF no_counts_object(1), of obj] obj no_counts_object(2)
  show ?thesis by auto
qed

theorem count_consistency_preserved_witness:
  "get_stats (demo_player ''p1'') 2026 = Some demo_stats \<and> aggregate_ok demo_stats
   \<and> fst demo_full_run = Inr True
   \<and> (\<exists>s'. get_stats (snd (snd demo_full_run)) 2026 = Some s' \<and> aggregate_ok s')
   \<and> fst demo_cut_run = Inl (Error ''MATCH_DETAIL_BUDGET_EXCEEDED'')
   \<and> (snd (snd demo_cut_run) = demo_player ''p1''
        \<or> (\<exists>s' obj. get_stats (snd (snd demo_cut_run)) 2026 = Some s'
              \<and> countsByChampionId s' = Some obj \<and> totalGames s' = counts_total obj))"
proof -
  have g: "get_stats (demo_player ''p1'') 2026 = Some demo_stats"
    by code_simp
  have ok: "aggregate_ok demo_stats"
    by code_simp
  have start: "get_stats (demo_player ''p1'') 2026 = None
               \<or> (\<exists>s. get_stats (demo_player ''p1'') 2026 = Some s
                        \<and> (aggregate_ok s \<or> legacy_ok s))"
    using g ok by blast
  have full: "incremental_update (demo_world [''m3'', ''m2'', ''m1'', ''m0''] 1800)
                (demo_env 20 [demo_player ''p1'']) (demo_player ''p1'') 2026 (Some 420)
              = (fst demo_full_run, fst (snd demo_full_run), snd (snd demo_full_run))"
    by (simp add: demo_full_run_def)
  have cut: "incremental_update (demo_world [''m3'', ''m2'', ''m1'', ''m0''] 1800)
                (demo_env 1 [demo_player ''p1'']) (demo_player ''p1'') 2026 (Some 420)
              = (fst demo_cut_run, fst (snd demo_cut_run), snd (snd demo_cut_run))"
    by (simp add: demo_cut_run_def)
  have rf: "fst demo_full_run = Inr True"
    by code_simp
  have rc: "fst demo_cut_run = Inl (Error ''MATCH_DETAIL_BUDGET_EXCEEDED'')"
    by code_simp
  from count_consistency_preserved [OF start full] rf
  have a: "\<exists>s'. get_stats (snd (snd demo_full_run)) 2026 = Some s' \<and> aggregate_ok s'"
    by blast
  from count_consistency_preserved [OF start cut] rc
  have b: "snd (snd demo_cut_run) = demo_player ''p1''
        \<or> (\<exists>s' obj. get_stats (snd (snd demo_cut_run)) 2026 = Some s'
              \<and> countsByChampionId s' = Some obj \<and> totalGames s' = counts_total obj)"
    by blast
  from g ok rf a rc b show ?thesis
    by blast
qed

text \<open>
  C2 as stated fails on a run that the budget cuts off. The aggregate starts
  consistent at three games. With three new ids and a budget of one, the first
  record is counted and the second lookup throws: \<open>totalGames\<close> and the counts
  object stand at four, and \<open>byChampion\<close>, which is rebuilt only after the
  loop, still sums to three. The next run finds nothing new, returns normally
  and leaves the aggregate as unequal as it found it.
\<close>

theorem count_consistency_counterexample:
  "aggregate_ok demo_stats
   \<and> get_stats (demo_player ''p1'') 2026 = Some demo_stats
   \<and> fst demo_cut_run = Inl (Error ''MATCH_DETAIL_BUDGET_EXCEEDED'')
   \<and> get_stats (snd (snd demo_cut_run)) 2026
       = Some (demo_stats\<lparr>totalGames := 4, countsByChampionId := Some [(7, 4)],
                          latestMatchId := Some ''m3''\<rparr>)
   \<and> counts_total [(7, 4)] = 4
   \<and> rows_total (byChampion (demo_stats\<lparr>totalGames := 4,
                                         countsByChampionId := Some [(7, 4)],
                                         latestMatchId := Some ''m3''\<rparr>)) = 3
   \<and> \<not> aggregate_ok (demo_stats\<lparr>totalGames := 4, countsByChampionId := Some [(7, 4)],
                                  latestMatchId := Some ''m3''\<rparr>)
   \<and> fst demo_after_cut_run = Inr True
   \<and> map_option totalGames (get_stats (snd (snd demo_after_cut_run)) 2026) = Some 4
   \<and> map_option (rows_total \<circ> byChampion) (get_stats (snd (snd demo_after_cut_run)) 2026)
       = Some 3"
  by code_simp

section \<open>Replaying a run\<close>

lemma walk_keeps_counts:
  assumes "count_new_matches w region pu ids e stats added = (r, e', stats')"
    and "countsByChampionId stats \<noteq> None"
  shows "countsByChampionId stats' \<noteq> None"
proof -
  from assms(2) obtain obj where "countsByChampionId stats = Some obj" by auto
  from count_new_matches_shape[OF assms(1) this] show ?thesis by auto
qed

lemma incremental_update_counts_present:
  assumes run: "incremental_update w e p0 yr q = (r, e', p')"
    and ident: "ensurePuuidAndSummonerId w p0 = Inr pa"
    and st: "get_stats p' yr = Some s"
  shows "countsByChampionId s \<noteq> None"
  using run
proof (cases rule: incremental_update_cases)
  case (identity_fails x)
  with ident show ?thesis by simp
next
  case (listing_fails p x)
  with st open_stats_counts[of p yr q] show ?thesis by (auto simp add: get_put_stats)
next
  case (nothing_listed p listing)
  with st open_stats_counts[of p yr q] show ?thesis by (auto simp add: get_put_stats)
next
  case (marker_seeded p newest older)
  with st open_stats_counts[of p yr q] show ?thesis by (auto simp add: get_put_stats)
next
  case (nothing_new p newest older)
  with st open_stats_counts[of p yr q] show ?thesis by (auto simp add: get_put_stats)
next
  case (catalog_fails p newest older x)
  with st open_stats_counts[of p yr q] show ?thesis by (auto simp add: get_put_stats)
next
  case (walk_fails p newest older champions x stats3)
  have "countsByChampionId stats3 \<noteq> None"
    using walk_fails(6) by (rule walk_keeps_counts) (simp add: open_stats_counts)
  with st walk_fails show ?thesis by (auto simp add: get_put_stats)
next
  case (walk_done p newest older champions added e1 stats3)
  with st show ?thesis by (auto simp add: get_put_stats)
next
  case (no_counts_object p newest older added e1 stats3)
  have "countsByChampionId stats3 \<noteq> None"
    using no_counts_object(1) by (rule walk_keeps_counts) (simp add: open_stats_counts)
  with no_counts_object show ?thesis by simp
qed

lemma open_stats_stored:
  "get_stats p yr = Some s \<Longrightarrow> countsByChampionId s \<noteq> None \<Longrightarrow>
   open_stats p yr q = s\<lparr>queueId := q\<rparr>"
  by (auto simp add: open_stats_def ensureCountsMap_def)

lemma new_ids_at_marker: "new_ids (newest # older) (Some newest) = []"
  by (simp add: new_ids_def)

lemma read_clock_fst: "fst (read_clock w e) = clock w (clock_reads e)"
  by (simp add: read_clock_def)

text \<open>
  C7. Take any first run that got past the identity lookup, and a second run
  on the aggregate it left whose listing has the marker of the first run as
  its head. The second run returns normally and leaves \<open>totalGames\<close>, the
  counts object and \<open>byChampion\<close> exactly as they were; it stamps
  \<open>computedAt\<close> with its own reading of the clock.
\<close>

theorem replay_counts_unchanged:
  assumes first: "incremental_update w1 e0 p0 yr q = (r1, e1, p1)"
    and first_ident: "ensurePuuidAndSummonerId w1 p0 = Inr pa"
    and left: "get_stats p1 yr = Some s1"
    and ident: "ensurePuuidAndSummonerId w2 p1 = Inr pb"
    and listing: "riot_match_ids w2 (regionalForPlatform (platform pb)) (js_String_str (puuid pb))
                    (year_query yr q) = Inr (Some (newest # older))"
    and same_head: "latestMatchId s1 = Some newest"
    and second: "incremental_update w2 e1 p1 yr q = (r2, e2, p2)"
  shows "r2 = Inr True
       \<and> (\<exists>s2. get_stats p2 yr = Some s2
             \<and> totalGames s2 = totalGames s1
             \<and> countsByChampionId s2 = countsByChampionId s1
             \<and> byChampion s2 = byChampion s1
             \<and> latestMatchId s2 = Some newest
             \<and> computedAt s2 = Some (clock w2 (clock_reads e1)))"
proof -
  have counts: "countsByChampionId s1 \<noteq> None"
    using first first_ident left by (rule incremental_update_counts_present)
  have "get_stats pb yr = Some s1"
    using ensure_get_stats[OF ident] left by simp
  then have opened: "open_stats pb yr q = s1\<lparr>queueId := q\<rparr>"
    using counts by (rule open_stats_stored)
  have marker: "latestMatchId (open_stats pb yr q) = Some newest"
    using opened same_head by simp
  have none_new: "new_ids (newest # older) (latestMatchId (open_stats pb yr q)) = []"
    using marker by (simp add: new_ids_at_marker)
  from second show ?thesis
  proof (cases rule: incremental_update_cases)
    case (identity_fails x)
    with ident show ?thesis by simp
  next
    case (listing_fails p x)
    with ident listing show ?thesis by simp
  next
    case (nothing_listed p lst)
    with ident listing show ?thesis by auto
  next
    case (marker_seeded p nw od)
    with ident listing opened same_head show ?thesis
      by (simp add: get_put_stats read_clock_fst)
  next
    case (nothing_new p nw od)
    with ident listing opened same_head show ?thesis
      by (simp add: get_put_stats read_clock_fst)
  next
    case (catalog_fails p nw od x)
    with ident listing none_new show ?thesis by simp
  next
    case (walk_fails p nw od champions x stats3)
    with ident listing none_new show ?thesis by simp
  next
    case (walk_done p nw od champions added ea stats3)
    with ident listing none_new show ?thesis by simp
  next
    case (no_counts_object p nw od added ea stats3)
    have "countsByChampionId stats3 \<noteq> None"
      using no_counts_object(1) by (rule walk_keeps_counts) (simp add: open_stats_counts)
    with no_counts_object show ?thesis by simp
  qed
qed

theorem replay_counts_unchanged_witness:
  "fst demo_full_run = Inr True
   \<and> map_option totalGames (get_stats (snd (snd demo_full_run)) 2026) = Some 6
   \<and> map_option computedAt (get_stats (snd (snd demo_full_run)) 2026) = Some (Some 1000)
   \<and> fst demo_replay_run = Inr True
   \<and> (\<exists>s2. get_stats (snd (snd demo_replay_run)) 2026 = Some s2
         \<and> totalGames s2 = 6 \<and> countsByChampionId s2 = Some [(7, 6)]
         \<and> latestMatchId s2 = Some ''m3'' \<and> computedAt s2 = Some 1001)"
proof -
  let ?w = "demo_world [''m3'', ''m2'', ''m1'', ''m0''] 1800"
  let ?s1 = "demo_stats\<lparr>totalGames := 6,
               byChampion := [\<lparr>row_championId = 7, row_count = 6, row_name = ''Seven'',
                                row_icon = Some ''7.png''\<rparr>],
               countsByChampionId := Some [(7, 6)], latestMatchId := Some ''m3'',
               computedAt := Some 1000, matchCount := Some 6,
               lastIncrement := Some (3, 3)\<rparr>"
  have first: "incremental_update ?w (demo_env 20 [demo_player ''p1'']) (demo_player ''p1'')
                 2026 (Some 420)
               = (fst demo_full_run, fst (snd demo_full_run), snd (snd demo_full_run))"
    by (simp add: demo_full_run_def)
  have first_ident: "ensurePuuidAndSummonerId ?w (demo_player ''p1'') = Inr (demo_player ''p1'')"
    by code_simp
  have left: "get_stats (snd (snd demo_full_run)) 2026 = Some ?s1"
    by code_simp
  have ident: "ensurePuuidAndSummonerId ?w (snd (snd demo_full_run))
               = Inr (snd (snd demo_full_run))"
    by code_simp
  have listing: "riot_match_ids ?w (regionalForPlatform (platform (snd (snd demo_full_run))))
                   (js_String_str (puuid (snd (snd demo_full_run)))) (year_query 2026 (Some 420))
                 = Inr (Some (''m3'' # [''m2'', ''m1'', ''m0'']))"
    by code_simp
  have same_head: "latestMatchId ?s1 = Some ''m3''"
    by code_simp
  have second: "incremental_update ?w (fst (snd demo_full_run)) (snd (snd demo_full_run))
                  2026 (Some 420)
                = (fst demo_replay_run, fst (snd demo_replay_run), snd (snd demo_replay_run))"
    by (simp add: demo_replay_run_def)
  have reads: "clock ?w (clock_reads (fst (snd demo_full_run))) = 1001"
    by code_simp
  have r1: "fst demo_full_run = Inr True"
    by code_simp
  have t1: "map_option totalGames (get_stats (snd (snd demo_full_run)) 2026) = Some 6"
    "map_option computedAt (get_stats (snd (snd demo_full_run)) 2026) = Some (Some 1000)"
    by code_simp+
  from replay_counts_unchanged [OF first first_ident left ident listing same_head second] reads
  have "fst demo_replay_run = Inr True
   \<and> (\<exists>s2. get_stats (snd (snd demo_replay_run)) 2026 = Some s2
         \<and> totalGames s2 = 6 \<and> countsByChampionId s2 = Some [(7, 6)]
         \<and> latestMatchId s2 = Some ''m3'' \<and> computedAt s2 = Some 1001)"
    by auto
  with r1 t1 show ?thesis
    by blast
qed

section \<open>Remakes\<close>

lemma remake_range:
  "gameDuration mi = Some d \<Longrightarrow> 0 < d \<Longrightarrow> d < REMAKE_MAX_DURATION_SEC \<Longrightarrow> is_remake (Some mi)"
  by (simp add: is_remake_def)

lemma summary_duration:
  "\<not> is_remake m \<Longrightarrow>
   \<not> (0 < gs_durationSec (summary_of champions matchId t m me)
        \<and> gs_durationSec (summary_of champions matchId t m me) < REMAKE_MAX_DURATION_SEC)"
  by (auto simp add: summary_of_def is_remake_def num0_def REMAKE_MAX_DURATION_SEC_def
        split: option.splits)

lemma last_games_loop_no_remake:
  "last_games_loop w region pu n champions ids e out = (Inr gms, e') \<Longrightarrow>
   \<forall>g \<in> set out. \<not> (0 < gs_durationSec g \<and> gs_durationSec g < REMAKE_MAX_DURATION_SEC) \<Longrightarrow>
   \<forall>g \<in> set gms. \<not> (0 < gs_durationSec g \<and> gs_durationSec g < REMAKE_MAX_DURATION_SEC)"
proof (induction w region pu n champions ids e out rule: last_games_loop.induct)
  case (1 w region pu n champions e out)
  then show ?case by simp
next
  case (2 w region pu n champions matchId rest e out)
  show ?case
  proof (cases "length out \<ge> n")
    case True
    with "2.prems" show ?thesis by simp
  next
    case False
    note room = this
    obtain fr e1 where f: "(fr, e1) = fetchMatchDetail w e region matchId"
      by (cases "fetchMatchDetail w e region matchId") simp
    show ?thesis
    proof (cases fr)
      case (Inl x)
      with f[symmetric] room "2.prems" show ?thesis by simp
    next
      case (Inr m)
      note m = this
      show ?thesis
      proof (cases "is_remake m")
        case True
        have "last_games_loop w region pu n champions rest e1 out = (Inr gms, e')"
          using f[symmetric] room m True "2.prems"(1) by simp
        then show ?thesis
          using "2.IH"(1)[OF room f m True] "2.prems"(2) by blast
      next
        case False
        note nr = this
        show ?thesis
        proof (cases "find_me m pu")
          case None
          have "last_games_loop w region pu n champions rest e1 out = (Inr gms, e')"
            using f[symmetric] room m nr None "2.prems"(1) by simp
          then show ?thesis
            using "2.IH"(2)[OF room f m nr None] "2.prems"(2) by blast
        next
          case (Some me)
          obtain tl e2 where t1: "(tl, e2) = end_time w e1 m"
            by (cases "end_time w e1 m") simp
          obtain t e3 where t2: "(t, e3) = end_time w e2 m"
            by (cases "end_time w e2 m") simp
          have run: "last_games_loop w region pu n champions rest e3
                       (out @ [summary_of champions matchId t m me]) = (Inr gms, e')"
            using f[symmetric] room m nr Some t1[symmetric] t2[symmetric] "2.prems"(1) by simp
          have "\<forall>g \<in> set (out @ [summary_of champions matchId t m me]).
                  \<not> (0 < gs_durationSec g \<and> gs_durationSec g < REMAKE_MAX_DURATION_SEC)"
            using "2.prems"(2) summary_duration[OF nr] by auto
          then show ?thesis
            using "2.IH"(3)[OF room f m nr Some t1 t2 run] by blast
        qed
      qed
    qed
  qed
qed

lemma summary_no_remake:
  assumes "fetchLastNGamesSummary w e p n q = (Inr gms, e')"
  shows "\<forall>g \<in> set gms. \<not> (0 < gs_durationSec g \<and> gs_durationSec g < REMAKE_MAX_DURATION_SEC)"
proof (cases "riot_match_ids w (regionalForPlatform (platform p)) (js_String_str (puuid p))
                (summary_query n q)")
  case (Inl x)
  with assms show ?thesis by (simp add: fetchLastNGamesSummary_def)
next
  case (Inr listing)
  show ?thesis
  proof (cases listing)
    case None
    with Inr assms show ?thesis by (auto simp add: fetchLastNGamesSummary_def)
  next
    case (Some ids)
    show ?thesis
    proof (cases ids)
      case Nil
      with Inr Some assms show ?thesis by (auto simp add: fetchLastNGamesSummary_def)
    next
      case (Cons newest older)
      show ?thesis
      proof (cases "ddragon w")
        case (Inl x)
        with Inr Some Cons assms show ?thesis by (simp add: fetchLastNGamesSummary_def)
      next
        case (Inr champions)
        have "last_games_loop w (regionalForPlatform (platform p)) (puuid p) n champions
                (newest # older) e [] = (Inr gms, e')"
          using \<open>riot_match_ids w (regionalForPlatform (platform p)) (js_String_str (puuid p))
                (summary_query n q) = Inr listing\<close> Some Cons Inr assms
          by (simp add: fetchLastNGamesSummary_def Let_def)
        then show ?thesis
          by (rule last_games_loop_no_remake) simp
      qed
    qed
  qed
qed

text \<open>
  C8, as amended. A fetched record whose duration is above 0 and below 300
  seconds is a non-game: the walk of the aggregator passes it without touching
  \<open>totalGames\<close> or any count, and it is not among the records that count; the
  loop of the recent-games summary passes it without adding an entry; and no
  entry of a returned summary has a duration above 0 and below 300.
\<close>

theorem remake_excluded:
  "(fetchMatchDetail w e region matchId = (Inr (Some mi), e1)
      \<and> gameDuration mi = Some d \<and> 0 < d \<and> d < 300 \<longrightarrow>
        \<not> counts_for w e region pu matchId
        \<and> count_new_matches w region pu (matchId # rest) e stats added
            = count_new_matches w region pu rest e1 stats added
        \<and> (length out < n \<longrightarrow>
             last_games_loop w region pu n champions (matchId # rest) e out
               = last_games_loop w region pu n champions rest e1 out))
   \<and> (fetchLastNGamesSummary w e p n q = (Inr gms, e2) \<longrightarrow>
        (\<forall>g \<in> set gms. \<not> (0 < gs_durationSec g \<and> gs_durationSec g < 300)))"
proof -
  have a: "\<not> counts_for w e region pu matchId
        \<and> count_new_matches w region pu (matchId # rest) e stats added
            = count_new_matches w region pu rest e1 stats added
        \<and> (length out < n \<longrightarrow>
             last_games_loop w region pu n champions (matchId # rest) e out
               = last_games_loop w region pu n champions rest e1 out)"
    if f: "fetchMatchDetail w e region matchId = (Inr (Some mi), e1)"
      and d: "gameDuration mi = Some d" "0 < d" "d < 300"
  proof -
    have rm: "is_remake (Some mi)"
      using d by (intro remake_range) (simp_all add: REMAKE_MAX_DURATION_SEC_def)
    have "resolve w e region matchId = Inr (Some mi)"
      using f by (rule fetch_ok_resolve)
    then have "\<not> counts_for w e region pu matchId"
      using rm by (simp add: counts_for_def counted_champion_def)
    then show ?thesis
      using f rm by simp
  qed
  have b: "\<forall>g \<in> set gms. \<not> (0 < gs_durationSec g \<and> gs_durationSec g < 300)"
    if "fetchLastNGamesSummary w e p n q = (Inr gms, e2)"
    using summary_no_remake[OF that] by (simp add: REMAKE_MAX_DURATION_SEC_def)
  from a b show ?thesis by blast
qed

theorem remake_excluded_witness:
  "fst (fetchMatchDetail (demo_world [''m3'', ''m2'', ''m1'', ''m0''] 200)
          (demo_env 20 [demo_player ''p1'']) ''europe'' ''m3'') = Inr (demo_match 200)
   \<and> \<not> counts_for (demo_world [''m3'', ''m2'', ''m1'', ''m0''] 200)
          (demo_env 20 [demo_player ''p1'']) ''europe'' (Some ''P'') ''m3''
   \<and> snd (snd (count_new_matches (demo_world [''m3'', ''m2'', ''m1'', ''m0''] 200)
          ''europe'' (Some ''P'') [''m3'']
          (demo_env 20 [demo_player ''p1'']) demo_stats 0)) = demo_stats
   \<and> map_option totalGames (get_stats (snd (snd demo_remake_run)) 2026) = Some 3
   \<and> length (projr (fst (fetchLastNGamesSummary (demo_world [''m3'', ''m2'', ''m1'', ''m0''] 1800)
          (demo_env 20 [demo_player ''p1'']) (demo_player ''p1'') 5 (Some 420)))) = 4
   \<and> list_all (\<lambda>g. \<not> (0 < gs_durationSec g \<and> gs_durationSec g < 300))
        (projr (fst (fetchLastNGamesSummary (demo_world [''m3'', ''m2'', ''m1'', ''m0''] 1800)
                       (demo_env 20 [demo_player ''p1'']) (demo_player ''p1'') 5 (Some 420))))
   \<and> fst (fetchLastNGamesSummary (demo_world [''m3'', ''m2'', ''m1'', ''m0''] 200)
          (demo_env 20 [demo_player ''p1'']) (demo_player ''p1'') 5 (Some 420)) = Inr []"
proof -
  let ?w = "demo_world [''m3'', ''m2'', ''m1'', ''m0''] 200"
  let ?v = "demo_world [''m3'', ''m2'', ''m1'', ''m0''] 1800"
  let ?e = "demo_env 20 [demo_player ''p1'']"
  let ?mi = "\<lparr>gameDuration = Some 200,
              participants = [\<lparr>part_puuid = Some ''P'', championId = Some 7, win = True,
                               kills = Some 1, deaths = Some 2, assists = Some 3\<rparr>],
              gameEndTimestamp = Some 5, info_queueId = Some 420\<rparr>"
  let ?sum = "fetchLastNGamesSummary ?v ?e (demo_player ''p1'') 5 (Some 420)"
  have f0: "fst (fetchMatchDetail ?w ?e ''europe'' ''m3'') = Inr (Some ?mi)"
    by code_simp
  then have f: "fetchMatchDetail ?w ?e ''europe'' ''m3''
                = (Inr (Some ?mi), snd (fetchMatchDetail ?w ?e ''europe'' ''m3''))"
    by (metis prod.collapse)
  have d: "gameDuration ?mi = Some 200 \<and> (0::int) < 200 \<and> (200::int) < 300"
    by simp
  have dm: "demo_match 200 = Some ?mi"
    by (simp add: demo_match_def)
  have isr: "\<not> isl (fst ?sum)"
    by code_simp
  then have s: "?sum = (Inr (projr (fst ?sum)), snd ?sum)"
    by (metis prod.collapse sum.collapse(2))
  have len: "length (projr (fst ?sum)) = 4"
    by code_simp
  have tot: "map_option totalGames (get_stats (snd (snd demo_remake_run)) 2026) = Some 3"
    by code_simp
  have none: "fst (fetchLastNGamesSummary ?w ?e (demo_player ''p1'') 5 (Some 420)) = Inr []"
    by code_simp
  from remake_excluded [where w = ?w and e = ?e and region = "''europe''" and matchId = "''m3''"
      and mi = ?mi and ?e1.0 = "snd (fetchMatchDetail ?w ?e ''europe'' ''m3'')" and d = 200
      and pu = "Some ''P''" and rest = "[]" and stats = demo_stats and added = 0]
    f d
  have a: "\<not> counts_for ?w ?e ''europe'' (Some ''P'') ''m3''
      \<and> count_new_matches ?w ''europe'' (Some ''P'') [''m3''] ?e demo_stats 0
          = count_new_matches ?w ''europe'' (Some ''P'') []
              (snd (fetchMatchDetail ?w ?e ''europe'' ''m3'')) demo_stats 0"
    by blast
  from remake_excluded [where w = ?v and e = ?e and p = "demo_player ''p1''" and n = 5
      and q = "Some 420" and gms = "projr (fst ?sum)" and ?e2.0 = "snd ?sum"] s
  have b: "\<forall>g \<in> set (projr (fst ?sum)). \<not> (0 < gs_durationSec g \<and> gs_durationSec g < 300)"
    by blast
  from a have "snd (snd (count_new_matches ?w ''europe'' (Some ''P'') [''m3''] ?e demo_stats 0))
               = demo_stats"
    by simp
  with a b f0 dm len tot none show ?thesis
    by (simp add: list_all_iff)
qed

text \<open>
  C8 as stated fails for a duration that is below 300 seconds without being
  above 0: the remake test asks for \<open>dur > 0\<close> as well. Records of 0 seconds
  are counted, here three of them on top of the three games stored, and they
  appear in the recent-games summary.
\<close>

theorem remake_threshold_counterexample:
  "map_option gameDuration (demo_match 0) = Some (Some 0)
   \<and> totalGames demo_stats = 3
   \<and> fst demo_zero_run = Inr True
   \<and> map_option totalGames (get_stats (snd (snd demo_zero_run)) 2026) = Some 6
   \<and> map_option countsByChampionId (get_stats (snd (snd demo_zero_run)) 2026)
       = Some (Some [(7, 6)])
   \<and> map gs_durationSec
        (projr (fst (fetchLastNGamesSummary (demo_world [''m3'', ''m2'', ''m1'', ''m0''] 0)
                       (demo_env 20 [demo_player ''p1'']) (demo_player ''p1'') 5 (Some 420))))
       = [0, 0, 0, 0]"
  by code_simp

section \<open>The listing is one page\<close>

lemma fetch_ids_irrelevant [simp]:
  "fetchMatchDetail (w\<lparr>riot_match_ids := f\<rparr>) = fetchMatchDetail w"
  by (intro ext) (auto simp add: fetchMatchDetail_def Let_def split: option.splits sum.splits)

lemma walk_ids_irrelevant [simp]:
  "count_new_matches (w\<lparr>riot_match_ids := f\<rparr>) region pu ids e stats added
     = count_new_matches w region pu ids e stats added"
  by (induction ids arbitrary: e stats added)
     (auto split: prod.splits sum.splits option.splits)

lemma year_query_page: "q_start (year_query yr q) = 0 \<and> q_count (year_query yr q) = 100"
  by (simp add: year_query_def split: prod.splits)

lemma new_ids_all: "c \<notin> set ids \<Longrightarrow> new_ids ids (Some c) = ids"
  by (auto simp add: new_ids_def takeWhile_eq_all_conv)

lemma incremental_update_listing_only:
  assumes "f (regionalForPlatform (platform pa)) (js_String_str (puuid pa)) (year_query yr q)
           = g (regionalForPlatform (platform pa)) (js_String_str (puuid pa)) (year_query yr q)"
    and "ensurePuuidAndSummonerId w p0 = Inr pa"
  shows "incremental_update (w\<lparr>riot_match_ids := f\<rparr>) e p0 yr q
         = incremental_update (w\<lparr>riot_match_ids := g\<rparr>) e p0 yr q"
proof -
  have e1: "ensurePuuidAndSummonerId (w\<lparr>riot_match_ids := f\<rparr>) p0 = Inr pa"
    and e2: "ensurePuuidAndSummonerId (w\<lparr>riot_match_ids := g\<rparr>) p0 = Inr pa"
    using assms(2) by (auto simp add: ensurePuuidAndSummonerId_def split: if_splits)
  show ?thesis
    unfolding incremental_update_def
    by (simp add: e1 e2 assms(1) read_clock_def
          cong del: sum.case_cong_weak option.case_cong_weak list.case_cong_weak
                    prod.case_cong_weak if_weak_cong)
qed


lemma open_stats_fields:
  "get_stats p yr = Some s \<Longrightarrow>
   totalGames (open_stats p yr q) = totalGames s
   \<and> latestMatchId (open_stats p yr q) = latestMatchId s"
  by (simp add: open_stats_def ensureCountsMap_def split: option.splits)

text \<open>
  C9. The run asks the listing endpoint for one page, \<open>start = 0\<close> and
  \<open>count = 100\<close>, so what it consults is the 100 newest ids of the history.
  If the stored marker is not on that page, the delta is the whole page, at
  most 100 ids; a run that completes has seen exactly the page and counted
  exactly the records of the page that count; and whatever lies behind the
  100th id has no influence on the run at all.
\<close>

theorem single_page_delta:
  assumes provider: "riot_match_ids w = paged history"
    and ident: "ensurePuuidAndSummonerId w p0 = Inr pa"
    and stored: "get_stats p0 yr = Some s"
    and marker: "latestMatchId s = Some c" "c \<noteq> []"
    and absent: "c \<notin> set (take 100 history)"
    and run: "incremental_update w e p0 yr q = (r, e', p')"
  shows "q_start (year_query yr q) = 0 \<and> q_count (year_query yr q) = 100
       \<and> riot_match_ids w (regionalForPlatform (platform pa)) (js_String_str (puuid pa))
            (year_query yr q) = Inr (Some (take 100 history))
       \<and> new_ids (take 100 history) (latestMatchId s) = take 100 history
       \<and> length (take 100 history) \<le> 100
       \<and> (\<forall>saved. r = Inr saved \<and> history \<noteq> [] \<longrightarrow>
            (\<exists>s'. get_stats p' yr = Some s'
               \<and> lastIncrement s'
                    = Some (length (take 100 history),
                            length (filter (counts_for w e (regionalForPlatform (platform pa))
                                              (puuid pa)) (take 100 history)))
               \<and> totalGames s'
                    = totalGames s
                      + int (length (filter (counts_for w e (regionalForPlatform (platform pa))
                                               (puuid pa)) (take 100 history)))))
       \<and> (\<forall>history'. take 100 history' = take 100 history \<longrightarrow>
            incremental_update (w\<lparr>riot_match_ids := paged history'\<rparr>) e p0 yr q = (r, e', p'))"
proof -
  let ?region = "regionalForPlatform (platform pa)"
  let ?page = "take 100 history"
  have qy: "q_start (year_query yr q) = 0 \<and> q_count (year_query yr q) = 100"
    by (rule year_query_page)
  have listing: "riot_match_ids w ?region (js_String_str (puuid pa)) (year_query yr q)
                  = Inr (Some ?page)"
    using qy by (simp add: provider paged_def)
  have delta: "new_ids ?page (latestMatchId s) = ?page"
    using absent marker(1) by (simp add: new_ids_all)
  have st: "get_stats pa yr = Some s"
    using ensure_get_stats[OF ident] stored by simp
  have opened: "totalGames (open_stats pa yr q) = totalGames s"
    "latestMatchId (open_stats pa yr q) = Some c"
    using open_stats_fields[OF st] marker(1) by simp_all
  have truthy: "truthy_str (latestMatchId (open_stats pa yr q))"
    using opened(2) marker(2) by (simp add: truthy_str_def)
  have complete: "\<exists>s'. get_stats p' yr = Some s'
               \<and> lastIncrement s'
                    = Some (length ?page, length (filter (counts_for w e ?region (puuid pa)) ?page))
               \<and> totalGames s'
                    = totalGames s + int (length (filter (counts_for w e ?region (puuid pa)) ?page))"
    if ok: "r = Inr saved" and ne: "history \<noteq> []" for saved
    using run
  proof (cases rule: incremental_update_cases)
    case (identity_fails x)
    with ok show ?thesis by simp
  next
    case (listing_fails p x)
    with ok show ?thesis by simp
  next
    case (nothing_listed p lst)
    with ident listing ne show ?thesis by auto
  next
    case (marker_seeded p nw od)
    with ident truthy show ?thesis by simp
  next
    case (nothing_new p nw od)
    with ident listing opened(2) delta marker(1) show ?thesis by auto
  next
    case (catalog_fails p nw od x)
    with ok show ?thesis by simp
  next
    case (walk_fails p nw od champions x stats3)
    with ok show ?thesis by simp
  next
    case (walk_done p nw od champions added ea stats3)
    have p: "p = pa" using walk_done(1) ident by simp
    have pg: "nw # od = ?page" using walk_done(2) listing p by simp
    have ids: "new_ids (nw # od) (latestMatchId (open_stats p yr q)) = ?page"
      using pg p opened(2) delta marker(1) by simp
    obtain obj where obj: "countsByChampionId ((open_stats p yr q)\<lparr>latestMatchId := Some nw\<rparr>) = Some obj"
      using open_stats_counts[of p yr q] by auto
    have "walk_result w e ?region (puuid pa) ?page ((open_stats p yr q)\<lparr>latestMatchId := Some nw\<rparr>)
            0 (Inr added) ea stats3"
      using count_new_matches_walk[OF walk_done(6) obj] ids p by simp
    then have "totalGames stats3 = totalGames s
                 + int (length (filter (counts_for w e ?region (puuid pa)) ?page))"
      and "added = length (filter (counts_for w e ?region (puuid pa)) ?page)"
      using opened(1) p by (simp_all add: walk_result_def)
    then show ?thesis
      using walk_done(9) ids by (simp add: get_put_stats)
  next
    case (no_counts_object p nw od added ea stats3)
    have "countsByChampionId stats3 \<noteq> None"
      using no_counts_object(1) by (rule walk_keeps_counts) (simp add: open_stats_counts)
    with no_counts_object show ?thesis by simp
  qed
  have older: "incremental_update (w\<lparr>riot_match_ids := paged history'\<rparr>) e p0 yr q = (r, e', p')"
    if same: "take 100 history' = take 100 history" for history'
  proof -
    have "paged history' ?region (js_String_str (puuid pa)) (year_query yr q)
          = paged history ?region (js_String_str (puuid pa)) (year_query yr q)"
      using qy same by (simp add: paged_def)
    then have "incremental_update (w\<lparr>riot_match_ids := paged history'\<rparr>) e p0 yr q
          = incremental_update (w\<lparr>riot_match_ids := paged history\<rparr>) e p0 yr q"
      using ident by (rule incremental_update_listing_only)
    moreover have "w\<lparr>riot_match_ids := paged history\<rparr> = w"
      using provider by simp
    ultimately show ?thesis
      using run by simp
  qed
  from qy listing delta complete older show ?thesis
    by simp
qed

theorem single_page_delta_witness:
  "riot_match_ids (demo_world demo_long_history 1800) = paged demo_long_history
   \<and> length demo_long_history = 102
   \<and> latestMatchId demo_stats = Some ''m0''
   \<and> ''m0'' \<notin> set (take 100 demo_long_history)
   \<and> fst demo_page_run = Inr True
   \<and> (\<exists>s'. get_stats (snd (snd demo_page_run)) 2026 = Some s'
         \<and> lastIncrement s' = Some (100, 100) \<and> totalGames s' = 103)"
proof -
  let ?w = "demo_world demo_long_history 1800"
  let ?e = "demo_env 20 [demo_player ''p1'']"
  have provider: "riot_match_ids ?w = paged demo_long_history"
    by (simp add: demo_world_def)
  have ident: "ensurePuuidAndSummonerId ?w (demo_player ''p1'') = Inr (demo_player ''p1'')"
    by code_simp
  have stored: "get_stats (demo_player ''p1'') 2026 = Some demo_stats"
    by code_simp
  have marker: "latestMatchId demo_stats = Some ''m0''" "''m0'' \<noteq> []"
    by code_simp+
  have absent: "''m0'' \<notin> set (take 100 demo_long_history)"
    by code_simp
  have run: "incremental_update ?w ?e (demo_player ''p1'') 2026 (Some 420)
             = (fst demo_page_run, fst (snd demo_page_run), snd (snd demo_page_run))"
    by (simp add: demo_page_run_def)
  have r: "fst demo_page_run = Inr True"
    by code_simp
  have len: "length demo_long_history = 102" "length (take 100 demo_long_history) = 100"
    "demo_long_history \<noteq> []"
    by code_simp+
  have counted: "length (filter (counts_for ?w ?e (regionalForPlatform (platform (demo_player ''p1'')))
                                   (puuid (demo_player ''p1''))) (take 100 demo_long_history)) = 100"
    by code_simp
  have tg: "totalGames demo_stats = 3"
    by code_simp
  from single_page_delta [OF provider ident stored marker absent run] r len(3)
  have "\<exists>s'. get_stats (snd (snd demo_page_run)) 2026 = Some s'
         \<and> lastIncrement s' = Some (length (take 100 demo_long_history),
                length (filter (counts_for ?w ?e (regionalForPlatform (platform (demo_player ''p1'')))
                                   (puuid (demo_player ''p1''))) (take 100 demo_long_history)))
         \<and> totalGames s' = totalGames demo_stats
              + int (length (filter (counts_for ?w ?e
                                       (regionalForPlatform (platform (demo_player ''p1'')))
                                       (puuid (demo_player ''p1''))) (take 100 demo_long_history)))"
    by blast
  then have "\<exists>s'. get_stats (snd (snd demo_page_run)) 2026 = Some s'
         \<and> lastIncrement s' = Some (100, 100) \<and> totalGames s' = 103"
    by (simp add: len counted tg)
  with provider len(1) marker(1) absent r show ?thesis
    by blast
qed

section \<open>The refresh cycle: what it may change\<close>

lemma read_clock_disk: "disk (snd (read_clock w e)) = disk e"
  by (simp add: read_clock_def)

lemma fetch_disk: "fetchMatchDetail w e region i = (r, e') \<Longrightarrow> disk e' = disk e"
  by (auto simp add: fetchMatchDetail_def Let_def split: option.splits if_splits sum.splits)

lemma walk_disk:
  "count_new_matches w region pu ids e stats added = (r, e', stats') \<Longrightarrow> disk e' = disk e"
proof (induction w region pu ids e stats added rule: count_new_matches.induct)
  case (1 w region pu e stats added)
  then show ?case by simp
next
  case (2 w region pu matchId rest e stats added)
  obtain fr e1 where f: "(fr, e1) = fetchMatchDetail w e region matchId"
    by (cases "fetchMatchDetail w e region matchId") simp
  have d: "disk e1 = disk e"
    using f[symmetric] by (rule fetch_disk)
  show ?case
  proof (cases fr)
    case (Inl x)
    with f[symmetric] "2.prems" d show ?thesis by simp
  next
    case (Inr m)
    note m = this
    show ?thesis
    proof (cases "is_remake m")
      case True
      have "count_new_matches w region pu rest e1 stats added = (r, e', stats')"
        using f[symmetric] m True "2.prems" by simp
      then have "disk e' = disk e1"
        by (rule "2.IH"(1)[OF f m True])
      with d show ?thesis by simp
    next
      case False
      note nr = this
      show ?thesis
      proof (cases "case find_me m pu of None \<Rightarrow> None | Some me \<Rightarrow> championId me")
        case None
        have "count_new_matches w region pu rest e1 stats added = (r, e', stats')"
          using f[symmetric] m nr None "2.prems" by simp
        then have "disk e' = disk e1"
          by (rule "2.IH"(2)[OF f m nr None])
        with d show ?thesis by simp
      next
        case (Some c)
        show ?thesis
        proof (cases "count_game stats c")
          case (Inl x)
          with f[symmetric] m nr Some "2.prems" d show ?thesis by simp
        next
          case (Inr stats1)
          have "count_new_matches w region pu rest e1 stats1 (Suc added) = (r, e', stats')"
            using f[symmetric] m nr Some Inr "2.prems" by simp
          then have "disk e' = disk e1"
            by (rule "2.IH"(3)[OF f m nr Some Inr])
          with d show ?thesis by simp
        qed
      qed
    qed
  qed
qed

lemma put_stats_frame:
  "p1 = p0\<lparr>puuid := u\<rparr> \<Longrightarrow>
   put_stats p1 yr s = p0\<lparr>puuid := puuid (put_stats p1 yr s),
                          champGamesByYear := champGamesByYear (put_stats p1 yr s)\<rparr>"
  by (simp add: put_stats_def)

lemma incremental_update_frame:
  assumes run: "incremental_update w e p0 yr q = (r, e', p')"
  shows "p' = p0\<lparr>puuid := puuid p', champGamesByYear := champGamesByYear p'\<rparr> \<and> disk e' = disk e"
  using run
proof (cases rule: incremental_update_cases)
  case (identity_fails x)
  then show ?thesis by simp
next
  case (listing_fails p x)
  with put_stats_frame[OF ensure_frame[OF listing_fails(1)]] show ?thesis
    by simp
next
  case (nothing_listed p listing)
  with put_stats_frame[OF ensure_frame[OF nothing_listed(1)]] show ?thesis
    by simp
next
  case (marker_seeded p newest older)
  with put_stats_frame[OF ensure_frame[OF marker_seeded(1)]] show ?thesis
    by (simp add: read_clock_disk)
next
  case (nothing_new p newest older)
  with put_stats_frame[OF ensure_frame[OF nothing_new(1)]] show ?thesis
    by (simp add: read_clock_disk)
next
  case (catalog_fails p newest older x)
  with put_stats_frame[OF ensure_frame[OF catalog_fails(1)]] show ?thesis
    by simp
next
  case (walk_fails p newest older champions x stats3)
  with put_stats_frame[OF ensure_frame[OF walk_fails(1)]] walk_disk[OF walk_fails(6)] show ?thesis
    by simp
next
  case (walk_done p newest older champions added e1 stats3)
  with put_stats_frame[OF ensure_frame[OF walk_done(1)]] walk_disk[OF walk_done(6)] show ?thesis
    by (simp add: read_clock_disk)
next
  case (no_counts_object p newest older added e1 stats3)
  have "countsByChampionId stats3 \<noteq> None"
    using no_counts_object(1) by (rule walk_keeps_counts) (simp add: open_stats_counts)
  with no_counts_object show ?thesis by simp
qed

lemma end_time_disk: "end_time w e m = (t, e') \<Longrightarrow> disk e' = disk e"
  by (auto simp add: end_time_def read_clock_def split: option.splits if_splits)

lemma last_games_loop_disk:
  "last_games_loop w region pu n champions ids e out = (r, e') \<Longrightarrow> disk e' = disk e"
proof (induction w region pu n champions ids e out rule: last_games_loop.induct)
  case (1 w region pu n champions e out)
  then show ?case by simp
next
  case (2 w region pu n champions matchId rest e out)
  show ?case
  proof (cases "length out \<ge> n")
    case True
    with "2.prems" show ?thesis by simp
  next
    case False
    note room = this
    obtain fr e1 where f: "(fr, e1) = fetchMatchDetail w e region matchId"
      by (cases "fetchMatchDetail w e region matchId") simp
    have d: "disk e1 = disk e"
      using f[symmetric] by (rule fetch_disk)
    show ?thesis
    proof (cases fr)
      case (Inl x)
      with f[symmetric] room "2.prems" d show ?thesis by simp
    next
      case (Inr m)
      note m = this
      show ?thesis
      proof (cases "is_remake m")
        case True
        have "last_games_loop w region pu n champions rest e1 out = (r, e')"
          using f[symmetric] room m True "2.prems" by simp
        then have "disk e' = disk e1"
          by (rule "2.IH"(1)[OF room f m True])
        with d show ?thesis by simp
      next
        case False
        note nr = this
        show ?thesis
        proof (cases "find_me m pu")
          case None
          have "last_games_loop w region pu n champions rest e1 out = (r, e')"
            using f[symmetric] room m nr None "2.prems" by simp
          then have "disk e' = disk e1"
            by (rule "2.IH"(2)[OF room f m nr None])
          with d show ?thesis by simp
        next
          case (Some me)
          obtain tl e2 where t1: "(tl, e2) = end_time w e1 m"
            by (cases "end_time w e1 m") simp
          obtain t e3 where t2: "(t, e3) = end_time w e2 m"
            by (cases "end_time w e2 m") simp
          have d3: "disk e3 = disk e"
            using end_time_disk[OF t1[symmetric]] end_time_disk[OF t2[symmetric]] d by simp
          have "last_games_loop w region pu n champions rest e3
                       (out @ [summary_of champions matchId t m me]) = (r, e')"
            using f[symmetric] room m nr Some t1[symmetric] t2[symmetric] "2.prems" by simp
          then have "disk e' = disk e3"
            by (rule "2.IH"(3)[OF room f m nr Some t1 t2])
          with d3 show ?thesis by simp
        qed
      qed
    qed
  qed
qed

lemma summary_disk:
  "fetchLastNGamesSummary w e p n q = (r, e') \<Longrightarrow> disk e' = disk e"
  by (auto simp add: fetchLastNGamesSummary_def Let_def simp del: last_games_loop.simps
        dest: last_games_loop_disk split: sum.splits option.splits list.splits)

lemma set_player_twice [simp]: "set_player (set_player st i a) i b = set_player st i b"
  by (simp add: set_player_def)

lemma set_player_same [simp]: "set_player st i (players st ! i) = st"
  by (simp add: set_player_def)

lemma set_player_nth [simp]:
  "i < length (players st) \<Longrightarrow> players (set_player st i p) ! i = p"
  by (simp add: set_player_def)

lemma set_player_length [simp]: "length (players (set_player st i p)) = length (players st)"
  by (simp add: set_player_def)

lemma set_player_other [simp]: "j \<noteq> i \<Longrightarrow> players (set_player st i p) ! j = players st ! j"
  by (simp add: set_player_def)

lemma set_player_history [simp]: "banHistory (set_player st i p) = banHistory st"
  by (simp add: set_player_def)

lemma frame_fields:
  assumes "p' = p\<lparr>puuid := a, champGamesByYear := b\<rparr>"
  shows "bans p' = bans p" "player_id p' = player_id p" "pendingBan p' = pendingBan p"
    "currentRank p' = currentRank p"
  using assms by simp_all

lemma overview_effect:
  assumes run: "updateChampionOverviewIncremental w e st i yr q = (r, e', st')"
  shows "\<exists>p'. st' = set_player st i p'
           \<and> bans p' = bans (players st ! i) \<and> player_id p' = player_id (players st ! i)
           \<and> pendingBan p' = pendingBan (players st ! i)
           \<and> currentRank p' = currentRank (players st ! i)
           \<and> (disk e' = disk e \<or> disk e' = st')"
proof -
  obtain ri e1 p1 where inc: "incremental_update w e (players st ! i) yr q = (ri, e1, p1)"
    by (cases "incremental_update w e (players st ! i) yr q") auto
  note fr = incremental_update_frame[OF inc]
  note fields = frame_fields[OF conjunct1[OF fr]]
  show ?thesis
  proof (cases ri)
    case (Inl x)
    with run inc fr fields show ?thesis
      by (auto simp add: updateChampionOverviewIncremental_def Let_def)
  next
    case (Inr saved)
    with run inc fr fields show ?thesis
      by (cases saved) (auto simp add: updateChampionOverviewIncremental_def Let_def saveState_def)
  qed
qed

lemma ensure_fields:
  assumes "ensurePuuidAndSummonerId w p = Inr p1"
  shows "bans p1 = bans p" "player_id p1 = player_id p" "pendingBan p1 = pendingBan p"
    "currentRank p1 = currentRank p" "lastRank p1 = lastRank p"
  using assms by (auto simp add: ensurePuuidAndSummonerId_def split: if_splits sum.splits)

lemma pending_step_refl: "pending_step now p p"
  by (simp add: pending_step_def)

lemma refresh_finish_step:
  assumes "bans p2 = bans p" "player_id p2 = player_id p" "pendingBan p2 = pendingBan p"
    "currentRank p2 = Some new"
  shows "pending_step now p (refresh_finish now (compared_rank p) new p2)"
  using assms by (auto simp add: pending_step_def refresh_finish_def Let_def)

lemma refresh_try_effect:
  assumes run: "refresh_try w now e st i = (r, e', st')"
    and i: "i < length (players st)"
  shows "\<exists>p'. st' = set_player st i p' \<and> pending_step now (players st ! i) p'
           \<and> (disk e' = disk e
                \<or> (\<exists>pm. disk e' = set_player st i pm
                      \<and> bans pm = bans (players st ! i)
                      \<and> player_id pm = player_id (players st ! i)
                      \<and> pendingBan pm = pendingBan (players st ! i)))"
proof -
  let ?p = "players st ! i"
  show ?thesis
  proof (cases "ensurePuuidAndSummonerId w ?p")
    case (Inl x)
    with run have "st' = st" "e' = e" by (simp_all add: refresh_try_def)
    then show ?thesis
      using pending_step_refl[of now ?p] by (intro exI[of _ ?p]) simp
  next
    case (Inr p1)
    note f1 = ensure_fields[OF Inr]
    show ?thesis
    proof (cases "fetchSoloQRank w p1")
      case (Inl x)
      with run Inr have "st' = set_player st i p1" "e' = e" by (simp_all add: refresh_try_def)
      moreover have "pending_step now ?p p1"
        using f1 by (simp add: pending_step_def)
      ultimately show ?thesis by blast
    next
      case rank: (Inr newRank)
      define prevRank where "prevRank = (case currentRank p1 of
                                 Some r \<Rightarrow> r
                               | None \<Rightarrow> (case lastRank p1 of
                                             Some r \<Rightarrow> r
                                           | None \<Rightarrow> unranked_snapshot))"
      have prev: "prevRank = compared_rank ?p"
        using f1 by (simp add: prevRank_def compared_rank_def stored_rank_def split: option.splits)
      define p2 where "p2 = p1\<lparr>soloWL := Some (num0 (wins newRank), num0 (losses newRank)),
                           lastRank := (case currentRank p1 of
                                          Some r \<Rightarrow> Some r
                                        | None \<Rightarrow> lastRank p1),
                           currentRank := Some newRank\<rparr>"
      have f2: "bans p2 = bans ?p" "player_id p2 = player_id ?p" "pendingBan p2 = pendingBan ?p"
        "currentRank p2 = Some newRank"
        using f1 by (simp_all add: p2_def)
      define changed where "changed \<longleftrightarrow> num0 (wins newRank) + num0 (losses newRank)
                               \<noteq> (case soloWL p1 of None \<Rightarrow> 0 | Some (pw, pl) \<Rightarrow> pw + pl)"
      show ?thesis
      proof (cases changed)
        case False
        have "refresh_try w now e st i
              = (Inr (), e, set_player st i (refresh_finish now prevRank newRank p2))"
          using False by (simp add: refresh_try_def Inr rank Let_def prevRank_def p2_def changed_def)
        with run have "st' = set_player st i (refresh_finish now prevRank newRank p2)" "e' = e"
          by simp_all
        moreover have "pending_step now ?p (refresh_finish now prevRank newRank p2)"
          unfolding prev using f2 by (rule refresh_finish_step)
        ultimately show ?thesis by blast
      next
        case True
        obtain r3 e1 st3 where agg:
          "updateChampionOverviewIncremental w e (set_player st i p2) i 2026 (Some 420) = (r3, e1, st3)"
          by (cases "updateChampionOverviewIncremental w e (set_player st i p2) i 2026 (Some 420)") auto
        from overview_effect[OF agg] i obtain p3 where st3: "st3 = set_player st i p3"
          and f3: "bans p3 = bans ?p" "player_id p3 = player_id ?p" "pendingBan p3 = pendingBan ?p"
            "currentRank p3 = Some newRank"
          and d1: "disk e1 = disk (e::env) \<or> disk e1 = st3"
          using f2 by auto
        have stay: "pending_step now ?p p3"
          using f3 by (simp add: pending_step_def)
        have saved1: "disk e1 = disk e
                \<or> (\<exists>pm. disk e1 = set_player st i pm
                      \<and> bans pm = bans ?p \<and> player_id pm = player_id ?p
                      \<and> pendingBan pm = pendingBan ?p)"
          using d1 st3 f3 by blast
        have nth3: "players st3 ! i = p3"
          using st3 i by simp
        show ?thesis
        proof (cases r3)
          case (Inl x)
          have "refresh_try w now e st i = (Inl x, e1, st3)"
            using True Inl agg
            by (simp add: refresh_try_def Inr rank Let_def prevRank_def p2_def changed_def)
          with run have "st' = st3" "e' = e1" by simp_all
          with st3 stay saved1 show ?thesis by blast
        next
          case u: (Inr u)
          obtain rs e2 where sm: "fetchLastNGamesSummary w e1 p3 5 (Some 420) = (rs, e2)"
            by (cases "fetchLastNGamesSummary w e1 p3 5 (Some 420)") auto
          have d2: "disk e2 = disk e1"
            using sm by (rule summary_disk)
          show ?thesis
          proof (cases rs)
            case (Inl x)
            have "refresh_try w now e st i = (Inl x, e2, st3)"
              using True u agg sm Inl nth3
              by (simp add: refresh_try_def Inr rank Let_def prevRank_def p2_def changed_def)
            with run have "st' = st3" "e' = e2" by simp_all
            with st3 stay saved1 d2 show ?thesis by auto
          next
            case gms: (Inr gms)
            let ?p4 = "p3\<lparr>last5 := Some \<lparr>l5_computedAt = now, games = gms\<rparr>\<rparr>"
            have "refresh_try w now e st i
                  = (Inr (), e2, set_player st3 i (refresh_finish now prevRank newRank ?p4))"
              using True u agg sm gms nth3
              by (simp add: refresh_try_def Inr rank Let_def prevRank_def p2_def changed_def)
            with run st3 have "st' = set_player st i (refresh_finish now prevRank newRank ?p4)"
              "e' = e2" by simp_all
            moreover have "pending_step now ?p (refresh_finish now prevRank newRank ?p4)"
              unfolding prev using f3 by (intro refresh_finish_step) simp_all
            ultimately show ?thesis
              using saved1 d2 by auto
          qed
        qed
      qed
    qed
  qed
qed

lemma keeps_pending_refl: "keeps_pending a a"
  by (simp add: keeps_pending_def)

lemma keeps_pending_trans: "keeps_pending a b \<Longrightarrow> keeps_pending b c \<Longrightarrow> keeps_pending a c"
  by (simp add: keeps_pending_def)

lemma keeps_pending_set_player:
  assumes "i < length (players st)" "bans p = bans (players st ! i)"
    "player_id p = player_id (players st ! i)"
    "\<And>pb. pendingBan (players st ! i) = Some pb \<Longrightarrow> pendingBan p = Some pb"
  shows "keeps_pending st (set_player st i p)"
  unfolding keeps_pending_def
proof (intro conjI allI impI)
  fix j assume "j < length (players st)"
  show "bans (players (set_player st i p) ! j) = bans (players st ! j)"
    using assms by (cases "j = i") simp_all
  show "player_id (players (set_player st i p) ! j) = player_id (players st ! j)"
    using assms by (cases "j = i") simp_all
  fix pb assume "pendingBan (players st ! j) = Some pb"
  then show "pendingBan (players (set_player st i p) ! j) = Some pb"
    using assms by (cases "j = i") simp_all
qed simp_all

lemma pending_step_keeps:
  "pending_step now p p' \<Longrightarrow> pendingBan p = Some pb \<Longrightarrow> pendingBan p' = Some pb"
  by (auto simp add: pending_step_def)

lemma refresh_catch_throws:
  "refresh_catch [(''err'', x)] p = Inl (ReferenceError ''e is not defined'')"
  by (simp add: refresh_catch_def)

lemma refresh_player_try:
  assumes "refresh_player w now e st i = (r, e', st')"
  shows "\<exists>rt. refresh_try w now e st i = (rt, e', st')
           \<and> (case rt of Inr u \<Rightarrow> r = Inr ()
                        | Inl x \<Rightarrow> r = Inl (ReferenceError ''e is not defined''))"
  using assms
  by (auto simp add: refresh_player_def refresh_catch_throws split: prod.splits sum.splits)

lemma refresh_player_effect:
  assumes run: "refresh_player w now e st i = (r, e', st')"
    and i: "i < length (players st)"
  shows "\<exists>p'. st' = set_player st i p' \<and> pending_step now (players st ! i) p'
           \<and> (disk e' = disk e
                \<or> (\<exists>pm. disk e' = set_player st i pm
                      \<and> bans pm = bans (players st ! i)
                      \<and> player_id pm = player_id (players st ! i)
                      \<and> pendingBan pm = pendingBan (players st ! i)))"
proof -
  from refresh_player_try[OF run] obtain rt where "refresh_try w now e st i = (rt, e', st')"
    by blast
  then show ?thesis using i by (rule refresh_try_effect)
qed

lemma refresh_player_keeps:
  assumes run: "refresh_player w now e st i = (r, e', st')"
    and i: "i < length (players st)"
  shows "keeps_pending st st' \<and> (disk e' = disk e \<or> keeps_pending st (disk e'))"
proof -
  from refresh_player_effect[OF run i] obtain p' where st': "st' = set_player st i p'"
    and step: "pending_step now (players st ! i) p'"
    and d: "disk e' = disk e
                \<or> (\<exists>pm. disk e' = set_player st i pm
                      \<and> bans pm = bans (players st ! i)
                      \<and> player_id pm = player_id (players st ! i)
                      \<and> pendingBan pm = pendingBan (players st ! i))"
    by blast
  have "keeps_pending st (set_player st i p')"
    using i step by (intro keeps_pending_set_player) (auto simp add: pending_step_def)
  moreover have "disk e' = disk e \<or> keeps_pending st (disk e')"
    using d i by (auto intro!: keeps_pending_set_player)
  ultimately show ?thesis using st' by simp
qed

lemma refresh_loop_keeps:
  "refresh_loop w now idxs e st = (r, e', st') \<Longrightarrow>
   \<forall>i \<in> set idxs. i < length (players st) \<Longrightarrow>
   keeps_pending st st' \<and> (disk e' = disk e \<or> keeps_pending st (disk e'))"
proof (induction idxs arbitrary: e st)
  case Nil
  then show ?case by (simp add: keeps_pending_refl)
next
  case (Cons i rest)
  obtain r1 e1 st1 where one: "refresh_player w now e st i = (r1, e1, st1)"
    by (cases "refresh_player w now e st i") auto
  have i: "i < length (players st)" using Cons.prems(2) by simp
  note k1 = refresh_player_keeps[OF one i]
  show ?case
  proof (cases r1)
    case (Inl x)
    with one Cons.prems(1) have "st' = st1" "e' = e1" by simp_all
    with k1 show ?thesis by simp
  next
    case (Inr u)
    with one Cons.prems(1) have rest: "refresh_loop w now rest e1 st1 = (r, e', st')"
      by simp
    have len: "length (players st1) = length (players st)"
      using k1 by (simp add: keeps_pending_def)
    have "\<forall>j \<in> set rest. j < length (players st1)"
      using Cons.prems(2) len by simp
    from Cons.IH[OF rest this]
    have k2: "keeps_pending st1 st'" "disk e' = disk e1 \<or> keeps_pending st1 (disk e')"
      by simp_all
    show ?thesis
      using k1 k2 by (auto intro: keeps_pending_trans)
  qed
qed

lemma refreshAll_unfold:
  assumes rc: "read_clock w (e\<lparr>MATCH_DETAIL_BUDGET := MATCH_DETAIL_BUDGET_PER_REFRESH\<rparr>) = (now, e2)"
    and loop: "refresh_loop w now [0..<length (players (disk e))] e2
                 ((disk e)\<lparr>globalLastUpdatedAt := Some now\<rparr>) = (r, e3, st2)"
  shows "refreshAll w e = (case r of Inl x \<Rightarrow> (Inl x, e3) | Inr u \<Rightarrow> (Inr st2, saveState st2 e3))"
  using rc loop by (simp add: refreshAll_def Let_def loadState_def split: sum.splits)

lemma refreshAll_keeps:
  assumes run: "refreshAll w e = (res, e')"
  shows "keeps_pending (disk e) (disk e')
         \<and> (\<forall>st. res = Inr st \<longrightarrow> disk e' = st)"
proof -
  obtain now e2 where rc:
    "read_clock w (e\<lparr>MATCH_DETAIL_BUDGET := MATCH_DETAIL_BUDGET_PER_REFRESH\<rparr>) = (now, e2)"
    by (cases "read_clock w (e\<lparr>MATCH_DETAIL_BUDGET := MATCH_DETAIL_BUDGET_PER_REFRESH\<rparr>)") auto
  let ?st1 = "(disk e)\<lparr>globalLastUpdatedAt := Some now\<rparr>"
  obtain r e3 st2 where loop:
    "refresh_loop w now [0..<length (players (disk e))] e2 ?st1 = (r, e3, st2)"
    by (cases "refresh_loop w now [0..<length (players (disk e))] e2 ?st1") auto
  have "\<forall>i \<in> set [0..<length (players (disk e))]. i < length (players ?st1)"
    by simp
  from refresh_loop_keeps[OF loop this]
  have k: "keeps_pending ?st1 st2" "disk e3 = disk e2 \<or> keeps_pending ?st1 (disk e3)"
    by simp_all
  have base: "keeps_pending (disk e) ?st1"
    by (simp add: keeps_pending_def)
  have d2: "disk e2 = disk e"
    using rc by (auto simp add: read_clock_def)
  note unfold = refreshAll_unfold[OF rc loop]
  show ?thesis
  proof (cases r)
    case (Inl x)
    with unfold run have "res = Inl x" "e' = e3" by simp_all
    with k(2) d2 base show ?thesis
      by (auto intro: keeps_pending_trans keeps_pending_refl)
  next
    case (Inr u)
    with unfold run have "res = Inr st2" "e' = saveState st2 e3" by simp_all
    with k(1) base show ?thesis
      by (auto simp add: saveState_def intro: keeps_pending_trans)
  qed
qed

lemma rankValue_ranked:
  "rankValue (Some a) (Some b) \<Longrightarrow> \<not> unranked a \<and> \<not> unranked b"
  by (auto simp add: rankValue_def split: if_splits)

lemma unranked_no_promotion:
  "is_unranked prev \<or> is_unranked new \<Longrightarrow> \<not> isPromotion prev new"
  by (auto simp add: is_unranked_def isPromotion_def rankValue_def split: option.splits)

lemma compared_unranked:
  "is_unranked (stored_rank p) \<Longrightarrow> unranked (compared_rank p)"
  by (auto simp add: is_unranked_def compared_rank_def unranked_snapshot_def split: option.splits)

text \<open>
  C5. A player has at most one pending promotion, the field holds one or none.
  If the player at position \<open>i\<close> has a pending promotion, one roster iteration
  leaves it exactly as it is, whatever the iteration detects and however it
  ends; the end of the \<open>try\<close> block drops a detection while one is pending. A
  whole refresh cycle clears no pending promotion, neither in the state it
  returns nor in the state on disk, also when it is rejected.
\<close>

theorem pending_promotion_kept:
  "(i < length (players st) \<and> refresh_player w now e st i = (r, e1, st1)
      \<and> pendingBan (players st ! i) = Some pb
     \<longrightarrow> pendingBan (players st1 ! i) = Some pb)
   \<and> (refreshAll w e = (res, e2) \<and> j < length (players (disk e))
      \<and> pendingBan (players (disk e) ! j) = Some pb
     \<longrightarrow> pendingBan (players (disk e2) ! j) = Some pb
         \<and> (\<forall>st2. res = Inr st2 \<longrightarrow> pendingBan (players st2 ! j) = Some pb))
   \<and> (pendingBan p = Some pb \<longrightarrow> pendingBan (refresh_finish now prev new p) = Some pb)"
proof -
  have a: "pendingBan (players st1 ! i) = Some pb"
    if i: "i < length (players st)" and run: "refresh_player w now e st i = (r, e1, st1)"
      and pb: "pendingBan (players st ! i) = Some pb"
  proof -
    from refresh_player_effect[OF run i] obtain p' where
      "st1 = set_player st i p'" "pending_step now (players st ! i) p'"
      by blast
    with i pb show ?thesis
      by (simp add: pending_step_keeps)
  qed
  have b: "pendingBan (players (disk e2) ! j) = Some pb
         \<and> (\<forall>st2. res = Inr st2 \<longrightarrow> pendingBan (players st2 ! j) = Some pb)"
    if run: "refreshAll w e = (res, e2)" and j: "j < length (players (disk e))"
      and pb: "pendingBan (players (disk e) ! j) = Some pb"
    using refreshAll_keeps[OF run] j pb by (auto simp add: keeps_pending_def)
  have c: "pendingBan (refresh_finish now prev new p) = Some pb" if "pendingBan p = Some pb"
    using that by (simp add: refresh_finish_def Let_def)
  from a b c show ?thesis by blast
qed

theorem pending_promotion_kept_witness:
  "pendingBan (players (demo_state [demo_pending_player]) ! 0) = Some demo_pending
   \<and> isPromotion (stored_rank demo_pending_player)
         (currentRank (players (snd (snd demo_pending_refresh)) ! 0))
   \<and> fst demo_pending_refresh = Inr ()
   \<and> pendingBan (players (snd (snd demo_pending_refresh)) ! 0) = Some demo_pending
   \<and> pendingBan (players (disk (snd (refreshAll (demo_world demo_five 1800)
                                          (demo_env 0 [demo_pending_player])))) ! 0)
       = Some demo_pending"
proof -
  let ?w = "demo_world demo_five 1800"
  let ?st = "demo_state [demo_pending_player]"
  let ?e = "demo_env 0 [demo_pending_player]"
  have i: "0 < length (players ?st)"
    by code_simp
  have run: "refresh_player ?w 1000 (demo_env 20 [demo_pending_player]) ?st 0
             = (fst demo_pending_refresh, fst (snd demo_pending_refresh),
                snd (snd demo_pending_refresh))"
    by (simp add: demo_pending_refresh_def)
  have pb: "pendingBan (players ?st ! 0) = Some demo_pending"
    by code_simp
  have promo: "isPromotion (stored_rank demo_pending_player)
                 (currentRank (players (snd (snd demo_pending_refresh)) ! 0))"
    by code_simp
  have ok: "fst demo_pending_refresh = Inr ()"
    by code_simp
  have cycle: "refreshAll ?w ?e = (fst (refreshAll ?w ?e), snd (refreshAll ?w ?e))"
    by simp
  have j: "0 < length (players (disk ?e))"
    by code_simp
  have pbj: "pendingBan (players (disk ?e) ! 0) = Some demo_pending"
    by code_simp
  from pending_promotion_kept [where i = 0 and st = ?st and w = ?w and now = 1000
      and e = "demo_env 20 [demo_pending_player]" and r = "fst demo_pending_refresh"
      and ?e1.0 = "fst (snd demo_pending_refresh)" and ?st1.0 = "snd (snd demo_pending_refresh)"
      and pb = demo_pending] i run pb
  have a: "pendingBan (players (snd (snd demo_pending_refresh)) ! 0) = Some demo_pending"
    by blast
  from pending_promotion_kept [where w = ?w and e = ?e and res = "fst (refreshAll ?w ?e)"
      and ?e2.0 = "snd (refreshAll ?w ?e)" and j = 0 and pb = demo_pending] cycle j pbj
  have b: "pendingBan (players (disk (snd (refreshAll ?w ?e))) ! 0) = Some demo_pending"
    by blast
  from pb promo ok a b show ?thesis
    by blast
qed

text \<open>
  C10. The comparison reports no promotion when either snapshot is missing or
  unranked. A roster iteration compares the stored snapshot, \<open>currentRank\<close> or
  else \<open>lastRank\<close>, with the fresh one, which becomes \<open>currentRank\<close>: when the
  stored one is missing or unranked, or the one the player ends up with is,
  the iteration leaves the pending promotion as it was, so it creates none.
\<close>

theorem unranked_never_promotes:
  "(is_unranked prev \<or> is_unranked new \<longrightarrow> \<not> isPromotion prev new)
   \<and> (i < length (players st) \<and> refresh_player w now e st i = (r, e1, st1)
        \<and> (is_unranked (stored_rank (players st ! i))
             \<or> is_unranked (currentRank (players st1 ! i)))
      \<longrightarrow> pendingBan (players st1 ! i) = pendingBan (players st ! i))"
proof -
  have b: "pendingBan (players st1 ! i) = pendingBan (players st ! i)"
    if i: "i < length (players st)" and run: "refresh_player w now e st i = (r, e1, st1)"
      and un: "is_unranked (stored_rank (players st ! i))
               \<or> is_unranked (currentRank (players st1 ! i))"
  proof -
    from refresh_player_effect[OF run i] obtain p' where
      st1: "st1 = set_player st i p'" and step: "pending_step now (players st ! i) p'"
      by blast
    have nth: "players st1 ! i = p'" using st1 i by simp
    show ?thesis
    proof (rule ccontr)
      assume "pendingBan (players st1 ! i) \<noteq> pendingBan (players st ! i)"
      with step nth obtain new where new: "currentRank p' = Some new"
        and pr: "isPromotion (Some (compared_rank (players st ! i))) (Some new)"
        by (auto simp add: pending_step_def)
      from pr have "\<not> unranked (compared_rank (players st ! i)) \<and> \<not> unranked new"
        unfolding isPromotion_def by (rule rankValue_ranked)
      with un nth new compared_unranked[of "players st ! i"] show False
        by (auto simp add: is_unranked_def)
    qed
  qed
  from unranked_no_promotion[of prev new] b show ?thesis by blast
qed

theorem unranked_never_promotes_witness:
  "is_unranked (stored_rank demo_unranked_player)
   \<and> \<not> isPromotion (stored_rank demo_unranked_player) (Some (ranked ''GOLD'' ''III'' 0))
   \<and> fst demo_unranked_refresh = Inr ()
   \<and> map_option tier (currentRank (players (snd (snd demo_unranked_refresh)) ! 0))
       = Some (Some ''GOLD'')
   \<and> pendingBan (players (snd (snd demo_unranked_refresh)) ! 0) = None"
proof -
  let ?w = "demo_world demo_five 1800"
  let ?st = "demo_state [demo_unranked_player]"
  have i: "0 < length (players ?st)"
    by code_simp
  have run: "refresh_player ?w 1000 (demo_env 20 [demo_unranked_player]) ?st 0
             = (fst demo_unranked_refresh, fst (snd demo_unranked_refresh),
                snd (snd demo_unranked_refresh))"
    by (simp add: demo_unranked_refresh_def)
  have un: "is_unranked (stored_rank (players ?st ! 0))"
    by code_simp
  have un': "is_unranked (stored_rank demo_unranked_player)"
    by code_simp
  have before: "pendingBan (players ?st ! 0) = None"
    by code_simp
  have ok: "fst demo_unranked_refresh = Inr ()"
    by code_simp
  have now_gold: "map_option tier (currentRank (players (snd (snd demo_unranked_refresh)) ! 0))
                  = Some (Some ''GOLD'')"
    by code_simp
  note inst = unranked_never_promotes [where prev = "stored_rank demo_unranked_player"
      and new = "Some (ranked ''GOLD'' ''III'' 0)" and i = 0 and st = ?st and w = ?w
      and now = 1000 and e = "demo_env 20 [demo_unranked_player]"
      and r = "fst demo_unranked_refresh" and ?e1.0 = "fst (snd demo_unranked_refresh)"
      and ?st1.0 = "snd (snd demo_unranked_refresh)"]
  from inst un' have a: "\<not> isPromotion (stored_rank demo_unranked_player)
                           (Some (ranked ''GOLD'' ''III'' 0))"
    by blast
  from inst i run un before
  have b: "pendingBan (players (snd (snd demo_unranked_refresh)) ! 0) = None"
    by simp
  from un' a ok now_gold b show ?thesis
    by blast
qed

text \<open>
  C1 fails on the code. The league lookup of the first of two players fails
  with a provider error. The \<open>catch (err)\<close> clause reads \<open>e\<close>, so handling the
  error throws a \<open>ReferenceError\<close> that leaves the roster loop and rejects
  \<open>refreshAll\<close>: nothing is written to disk, no \<open>lastError\<close> is recorded and the
  second player is not refreshed. With a healthy provider the same cycle
  refreshes both players.
\<close>

theorem refresh_error_escapes:
  "fst (refresh_try demo_failing_world 1000 (demo_env 20 demo_roster) (demo_state demo_roster) 0)
     = Inl (Error ''Riot API 500 Internal Server Error: '')
   \<and> fst (refreshAll demo_failing_world (demo_env 0 demo_roster))
       = Inl (ReferenceError ''e is not defined'')
   \<and> disk (snd (refreshAll demo_failing_world (demo_env 0 demo_roster)))
       = disk (demo_env 0 demo_roster)
   \<and> map lastError (players (disk (snd (refreshAll demo_failing_world (demo_env 0 demo_roster)))))
       = [None, None]
   \<and> map lastUpdatedAt
        (players (disk (snd (refreshAll demo_failing_world (demo_env 0 demo_roster)))))
       = [None, None]
   \<and> map lastUpdatedAt
        (players (disk (snd (refreshAll (demo_world [''m3'', ''m2'', ''m1'', ''m0''] 1800)
                               (demo_env 0 demo_roster)))))
       = [Some 1000, Some 1000]"
  by code_simp

text \<open>
  C3 fails on the code in its last part. With five new ids and a budget of two
  the aggregator stops at the third lookup, has counted exactly two games on
  top of the three stored and has moved the marker to the head of the listing.
  But the roster iteration that called it ends in the \<open>ReferenceError\<close> of the
  \<open>catch\<close> clause and sets no \<open>needsCatchup\<close>; a cycle that meets 21 new ids
  with its budget of 20 is rejected and writes nothing to disk.
\<close>

theorem budget_cutoff_escapes:
  "fst demo_five_run = Inl (Error ''MATCH_DETAIL_BUDGET_EXCEEDED'')
   \<and> map_option totalGames (get_stats (demo_player ''p1'') 2026) = Some 3
   \<and> map_option totalGames (get_stats (snd (snd demo_five_run)) 2026) = Some 5
   \<and> map_option countsByChampionId (get_stats (snd (snd demo_five_run)) 2026)
       = Some (Some [(7, 5)])
   \<and> map_option latestMatchId (get_stats (snd (snd demo_five_run)) 2026) = Some (Some ''m5'')
   \<and> fst demo_cut_refresh = Inl (ReferenceError ''e is not defined'')
   \<and> map needsCatchup (players (snd (snd demo_cut_refresh))) = [False]
   \<and> fst (refreshAll (demo_world demo_backlog 1800) (demo_env 0 [demo_player ''p1'']))
       = Inl (ReferenceError ''e is not defined'')
   \<and> disk (snd (refreshAll (demo_world demo_backlog 1800) (demo_env 0 [demo_player ''p1''])))
       = disk (demo_env 0 [demo_player ''p1''])"
  by code_simp

section \<open>Recording a ban\<close>

lemma update_first_split:
  "find P xs = Some p \<Longrightarrow>
   \<exists>pre post. xs = pre @ p # post \<and> (\<forall>x \<in> set pre. \<not> P x) \<and> P p
      \<and> update_first P f xs = pre @ f p # post"
proof (induction xs)
  case Nil
  then show ?case by simp
next
  case (Cons a xs)
  show ?case
  proof (cases "P a")
    case True
    with Cons.prems have "a = p" by simp
    with True have "a # xs = [] @ p # xs \<and> (\<forall>x \<in> set []. \<not> P x) \<and> P p
        \<and> update_first P f (a # xs) = [] @ f p # xs"
      by simp
    then show ?thesis by blast
  next
    case False
    with Cons.prems have "find P xs = Some p" by simp
    from Cons.IH[OF this] obtain pre post where
      "xs = pre @ p # post" "\<forall>x \<in> set pre. \<not> P x" "P p"
      "update_first P f xs = pre @ f p # post"
      by blast
    with False have "a # xs = (a # pre) @ p # post \<and> (\<forall>x \<in> set (a # pre). \<not> P x) \<and> P p
        \<and> update_first P f (a # xs) = (a # pre) @ f p # post"
      by simp
    then show ?thesis by blast
  qed
qed

lemma dropWhile_id: "xs = [] \<or> \<not> P (hd xs) \<Longrightarrow> dropWhile P xs = xs"
  by (cases xs) auto

lemma js_trim_idem: "js_trim (js_trim s) = js_trim s"
proof -
  let ?t = "dropWhile js_space s"
  let ?u = "rev (dropWhile js_space (rev ?t))"
  have split: "?t = ?u @ rev (takeWhile js_space (rev ?t))"
    by (metis rev_append rev_rev_ident takeWhile_dropWhile_id)
  have head: "?u = [] \<or> \<not> js_space (hd ?u)"
  proof (cases "?u = []")
    case True
    then show ?thesis by simp
  next
    case False
    then have "hd ?u = hd ?t" using split by (metis hd_append2)
    moreover have "?t \<noteq> []" using False split by (metis append_is_Nil_conv)
    ultimately show ?thesis using hd_dropWhile[of js_space s] by simp
  qed
  have last: "rev ?u = [] \<or> \<not> js_space (hd (rev ?u))"
    using hd_dropWhile[of js_space "rev ?t"] by auto
  have "dropWhile js_space ?u = ?u"
    using head by (rule dropWhile_id)
  moreover have "dropWhile js_space (rev ?u) = rev ?u"
    using last by (rule dropWhile_id)
  ultimately show ?thesis
    by (simp add: js_trim_def)
qed

lemma norm_trim: "norm (js_trim s) = norm s"
  by (simp add: norm_def js_trim_idem)

text \<open>
  C6, as amended. A well-formed request for a player on the roster is rejected with
  status 409 when the player has no pending promotion, and when the champion,
  trimmed, with runs of white space collapsed and in lower case, equals a
  champion of the player's ban list under the same normalisation. Every
  rejection leaves the whole process state, the document on disk included, as
  it was. An accepted request changes exactly one roster entry, the first with
  the requested id: one ban record is appended to its ban list and its pending
  promotion is cleared; one history entry that holds a copy of that pending
  promotion is put at the head of the history; and the new state is saved.
\<close>

theorem ban_recording:
  assumes call: "post_api_ban w e req = (reply, e')"
  shows "(\<forall>p. truthy_str (req_playerId req) \<and> js_trim (str_or_empty (req_champion req)) \<noteq> []
              \<and> find (\<lambda>x. Some (player_id x) = req_playerId req) (players (disk e)) = Some p
              \<and> pendingBan p = None
            \<longrightarrow> reply = Rejected 409)
       \<and> (\<forall>p. truthy_str (req_playerId req) \<and> js_trim (str_or_empty (req_champion req)) \<noteq> []
              \<and> find (\<lambda>x. Some (player_id x) = req_playerId req) (players (disk e)) = Some p
              \<and> (\<exists>b \<in> set (bans p).
                     norm (ban_champion b) = norm (str_or_empty (req_champion req)))
            \<longrightarrow> reply = Rejected 409)
       \<and> (\<forall>c. reply = Rejected c \<longrightarrow> e' = e)
       \<and> (\<forall>st'. reply = Accepted st' \<longrightarrow>
            (\<exists>p pending pre post.
               players (disk e) = pre @ p # post
               \<and> (\<forall>x \<in> set pre. Some (player_id x) \<noteq> req_playerId req)
               \<and> Some (player_id p) = req_playerId req
               \<and> pendingBan p = Some pending
               \<and> \<not> list_ex (\<lambda>b. norm (ban_champion b) = norm (str_or_empty (req_champion req)))
                              (bans p)
               \<and> players st'
                    = pre @ p\<lparr>bans := bans p @ [\<lparr>ban_time = clock w (clock_reads e),
                                                 ban_champion =
                                                   js_trim (str_or_empty (req_champion req)),
                                                 ban_note = str_or_empty (req_note req)\<rparr>],
                              pendingBan := None\<rparr> # post
               \<and> banHistory st'
                    = \<lparr>he_time = clock w (clock_reads e), he_playerId = player_id p,
                       he_playerName = displayName p,
                       he_champion = js_trim (str_or_empty (req_champion req)),
                       he_note = str_or_empty (req_note req),
                       promotion = Some pending\<rparr> # banHistory (disk e)
               \<and> globalLastUpdatedAt st' = globalLastUpdatedAt (disk e)
               \<and> disk e' = st'))"
proof -
  let ?champ = "js_trim (str_or_empty (req_champion req))"
  let ?P = "\<lambda>x. Some (player_id x) = req_playerId req"
  show ?thesis
  proof (cases "\<not> truthy_str (req_playerId req) \<or> ?champ = []")
    case True
    with call have "reply = Rejected 400" "e' = e"
      by (auto simp add: post_api_ban_def Let_def)
    with True show ?thesis by auto
  next
    case False
    note valid = this
    show ?thesis
    proof (cases "find ?P (players (disk e))")
      case None
      with call valid have "reply = Rejected 404" "e' = e"
        by (auto simp add: post_api_ban_def Let_def loadState_def)
      with None show ?thesis by auto
    next
      case (Some p)
      show ?thesis
      proof (cases "pendingBan p")
        case None
        with call valid Some have "reply = Rejected 409" "e' = e"
          by (auto simp add: post_api_ban_def Let_def loadState_def)
        with Some None show ?thesis by auto
      next
        case pend: (Some pending)
        show ?thesis
        proof (cases "list_ex (\<lambda>b. norm (ban_champion b) = norm ?champ) (bans p)")
          case True
          with call valid Some pend have "reply = Rejected 409" "e' = e"
            by (auto simp add: post_api_ban_def Let_def loadState_def)
          with Some pend show ?thesis by auto
        next
          case False
          let ?now = "clock w (clock_reads e)"
          let ?f = "\<lambda>x. x\<lparr>bans := bans x @ [\<lparr>ban_time = ?now, ban_champion = ?champ,
                                             ban_note = str_or_empty (req_note req)\<rparr>],
                          pendingBan := None\<rparr>"
          let ?entry = "\<lparr>he_time = ?now, he_playerId = player_id p,
                       he_playerName = displayName p, he_champion = ?champ,
                       he_note = str_or_empty (req_note req), promotion = Some pending\<rparr>"
          let ?st = "(disk e)\<lparr>players := update_first ?P ?f (players (disk e)),
                               banHistory := ?entry # banHistory (disk e)\<rparr>"
          have res: "reply = Accepted ?st" "disk e' = ?st"
            using call valid Some pend False
            by (auto simp add: post_api_ban_def Let_def loadState_def saveState_def read_clock_def)
          from update_first_split[OF Some, of ?f] obtain pre post where
            sp: "players (disk e) = pre @ p # post" "\<forall>x \<in> set pre. \<not> ?P x" "?P p"
              "update_first ?P ?f (players (disk e)) = pre @ ?f p # post"
            by blast
          have nodup: "\<not> list_ex (\<lambda>b. norm (ban_champion b) = norm (str_or_empty (req_champion req)))
                              (bans p)"
            using False by (simp add: norm_trim)
          have dup_free: "\<not> (\<exists>b \<in> set (bans p).
                     norm (ban_champion b) = norm (str_or_empty (req_champion req)))"
            using nodup by (simp add: list_ex_iff)
          have acc: "\<exists>p pending pre post.
               players (disk e) = pre @ p # post
               \<and> (\<forall>x \<in> set pre. Some (player_id x) \<noteq> req_playerId req)
               \<and> Some (player_id p) = req_playerId req
               \<and> pendingBan p = Some pending
               \<and> \<not> list_ex (\<lambda>b. norm (ban_champion b) = norm (str_or_empty (req_champion req)))
                              (bans p)
               \<and> players ?st
                    = pre @ p\<lparr>bans := bans p @ [\<lparr>ban_time = ?now, ban_champion = ?champ,
                                                 ban_note = str_or_empty (req_note req)\<rparr>],
                              pendingBan := None\<rparr> # post
               \<and> banHistory ?st
                    = \<lparr>he_time = ?now, he_playerId = player_id p,
                       he_playerName = displayName p, he_champion = ?champ,
                       he_note = str_or_empty (req_note req),
                       promotion = Some pending\<rparr> # banHistory (disk e)
               \<and> globalLastUpdatedAt ?st = globalLastUpdatedAt (disk e)
               \<and> disk e' = ?st"
            using sp pend nodup res(2)
            by (intro exI[of _ p] exI[of _ pending] exI[of _ pre] exI[of _ post]) simp
          show ?thesis
            using res(1) Some pend dup_free acc by auto
        qed
      qed
    qed
  qed
qed

theorem ban_recording_witness:
  "fst (post_api_ban (demo_world demo_five 1800) demo_ban_env demo_dup_request) = Rejected 409
   \<and> snd (post_api_ban (demo_world demo_five 1800) demo_ban_env demo_dup_request) = demo_ban_env
   \<and> fst (post_api_ban (demo_world demo_five 1800) demo_ban_env demo_early_request)
       = Rejected 409
   \<and> map (map ban_champion \<circ> bans)
        (players (disk (snd (post_api_ban (demo_world demo_five 1800) demo_ban_env
                               demo_new_request))))
       = [[''Lee Sin'', ''Ahri''], []]
   \<and> map pendingBan
        (players (disk (snd (post_api_ban (demo_world demo_five 1800) demo_ban_env
                               demo_new_request))))
       = [None, None]
   \<and> map promotion
        (banHistory (disk (snd (post_api_ban (demo_world demo_five 1800) demo_ban_env
                                  demo_new_request))))
       = [Some demo_pending, None]"
proof -
  let ?w = "demo_world demo_five 1800"
  let ?dup = "post_api_ban ?w demo_ban_env demo_dup_request"
  let ?early = "post_api_ban ?w demo_ban_env demo_early_request"
  let ?new = "post_api_ban ?w demo_ban_env demo_new_request"
  have c1: "?dup = (fst ?dup, snd ?dup)" and c2: "?early = (fst ?early, snd ?early)"
    and c3: "?new = (fst ?new, snd ?new)"
    by simp_all
  have id1: "truthy_str (req_playerId demo_dup_request)
             \<and> js_trim (str_or_empty (req_champion demo_dup_request)) \<noteq> []"
    by code_simp
  have f1: "find (\<lambda>x. Some (player_id x) = req_playerId demo_dup_request)
              (players (disk demo_ban_env)) = Some demo_banned_player"
    by code_simp
  have dup: "list_ex (\<lambda>b. norm (ban_champion b) = norm (str_or_empty (req_champion demo_dup_request)))
               (bans demo_banned_player)"
    by code_simp
  then have dup': "\<exists>b \<in> set (bans demo_banned_player).
                     norm (ban_champion b) = norm (str_or_empty (req_champion demo_dup_request))"
    by (simp add: list_ex_iff)
  from ban_recording [OF c1] id1 f1 dup'
  have r1: "fst ?dup = Rejected 409"
    by blast
  with ban_recording [OF c1] have r2: "snd ?dup = demo_ban_env"
    by blast
  have id2: "truthy_str (req_playerId demo_early_request)
             \<and> js_trim (str_or_empty (req_champion demo_early_request)) \<noteq> []"
    by code_simp
  have f2: "find (\<lambda>x. Some (player_id x) = req_playerId demo_early_request)
              (players (disk demo_ban_env)) = Some (demo_player ''p2'')"
    by code_simp
  have np: "pendingBan (demo_player ''p2'') = None"
    by code_simp
  from ban_recording [OF c2] id2 f2 np
  have r3: "fst ?early = Rejected 409"
    by blast
  have r4: "map (map ban_champion \<circ> bans) (players (disk (snd ?new)))
            = [[''Lee Sin'', ''Ahri''], []]"
    "map pendingBan (players (disk (snd ?new))) = [None, None]"
    "map promotion (banHistory (disk (snd ?new))) = [Some demo_pending, None]"
    by code_simp+
  from r1 r2 r3 r4 show ?thesis
    by blast
qed

text \<open>
  C6 as stated fails in one point: the history entry is not appended. The
  handler calls \<open>state.banHistory.unshift(entry)\<close>, so with one entry in the
  history the new entry comes first and the old one stays last.
\<close>

theorem ban_history_counterexample:
  "map he_champion (banHistory (disk demo_ban_env)) = [''Lee Sin'']
   \<and> map he_champion
        (banHistory (disk (snd (post_api_ban (demo_world demo_five 1800) demo_ban_env
                                  demo_new_request))))
       = [''Ahri'', ''Lee Sin'']
   \<and> last (banHistory (disk (snd (post_api_ban (demo_world demo_five 1800) demo_ban_env
                                      demo_new_request))))
       = demo_old_entry
   \<and> map (map ban_champion \<circ> bans)
        (players (disk (snd (post_api_ban (demo_world demo_five 1800) demo_ban_env
                               demo_new_request))))
       = [[''Lee Sin'', ''Ahri''], []]"
  by code_simp

end
